theory Spec2Isabelle
  imports Main
begin

section \<open>Values of the worker\<close>

text \<open>
  The worker (\<^verbatim>\<open>worker.js\<close>) reads timestamps through \<^verbatim>\<open>new Date(x)\<close>. A JavaScript
  date holds a time value in milliseconds since the epoch, or NaN (an "Invalid Date", as
  \<^verbatim>\<open>new Date(undefined)\<close> is). Every comparison with NaN is false and arithmetic on NaN
  stays NaN. A field of the model that the source passes to \<^verbatim>\<open>new Date\<close> holds the
  resulting date.
\<close>

datatype jsdate = Invalid | Valid int

fun date_gt :: "jsdate \<Rightarrow> jsdate \<Rightarrow> bool" where
  "date_gt (Valid a) (Valid b) = (a > b)"
| "date_gt _ _ = False"

fun date_minus :: "jsdate \<Rightarrow> int \<Rightarrow> jsdate" where
  "date_minus (Valid a) n = Valid (a - n)"
| "date_minus Invalid n = Invalid"

text \<open>
  A string property of a remote record is \<open>None\<close> when it is null or absent. JavaScript
  treats the empty string as false too.
\<close>

definition truthy :: "string option \<Rightarrow> bool" where
  "truthy s = (case s of None \<Rightarrow> False | Some v \<Rightarrow> v \<noteq> [])"

definition orEmpty :: "string option \<Rightarrow> string" where
  "orEmpty s = (if truthy s then the s else [])"

definition isSpace :: "char \<Rightarrow> bool" where
  "isSpace c = (c \<in> {CHR '' '', CHR 0x09, CHR 0x0A, CHR 0x0B, CHR 0x0C, CHR 0x0D})"

definition trim :: "string \<Rightarrow> string" where
  "trim s = rev (dropWhile isSpace (rev (dropWhile isSpace s)))"

subsection \<open>Remote records\<close>

record companyProps =
  cp_domain :: "string option"
  cp_industry :: "string option"

record company =
  company_id :: string
  company_properties :: "companyProps option"
  company_createdAt :: jsdate
  company_updatedAt :: jsdate

text \<open>
  \<open>hubspotscore\<close> holds what \<^verbatim>\<open>parseInt\<close> makes of the property: \<open>None\<close> is NaN.
\<close>

record contactProps =
  firstname :: "string option"
  lastname :: "string option"
  jobtitle :: "string option"
  email :: "string option"
  hubspotscore :: "int option"
  hs_lead_status :: "string option"
  hs_analytics_source :: "string option"

record contact =
  contact_id :: string
  contact_properties :: "contactProps option"
  contact_createdAt :: jsdate
  contact_updatedAt :: jsdate

text \<open>
  A meeting is read only through its id and its properties; \<open>hs_createdate\<close> and
  \<open>hs_lastmodifieddate\<close> hold \<^verbatim>\<open>new Date\<close> of the property.
\<close>

record meetingProps =
  hs_meeting_title :: "string option"
  hs_meeting_start_time :: "string option"
  hs_meeting_end_time :: "string option"
  hs_createdate :: jsdate
  hs_lastmodifieddate :: jsdate

record meeting =
  meeting_id :: string
  meeting_properties :: "meetingProps option"

subsection \<open>Output actions\<close>

datatype jsval = JString string | JNumber int

record companyProperties =
  cprop_company_id :: string
  cprop_company_domain :: "string option"
  cprop_company_industry :: "string option"

record outputAction =
  actionName :: string
  actionDate :: jsdate
  includeInAnalytics :: int
  identity :: "string option"
  companyProps_of :: "companyProperties option"
  userProperties :: "(string \<times> jsval) list option"

text \<open>
  Modelled from the spec: \<^verbatim>\<open>filterNullValuesFromObject\<close> lives in \<^verbatim>\<open>utils.js\<close>, which is
  not among the sources. The spec says the properties map of an output action has its
  null-valued keys removed; an object is a list of keys with their values, \<open>None\<close> for
  null or undefined.
\<close>

definition filterNullValuesFromObject :: "(string \<times> jsval option) list \<Rightarrow> (string \<times> jsval) list" where
  "filterNullValuesFromObject obj =
     concat (map (\<lambda>(k, v). case v of None \<Rightarrow> [] | Some x \<Rightarrow> [(k, x)]) obj)"

definition jstr :: "string option \<Rightarrow> jsval option" where
  "jstr s = map_option JString s"

section \<open>The action buffer\<close>

text \<open>
  The state of one run: the accounts of the domain, the client's token and the tracked
  expiry, the in-memory array \<open>actions\<close> of the current account, the batches handed to
  \<^verbatim>\<open>goal\<close> (the sink) so far, and the search requests sent so far.
\<close>

record pulledDates =
  pd_companies :: jsdate
  pd_contacts :: jsdate
  pd_meetings :: jsdate

record account =
  hubId :: string
  accessToken :: string
  refreshToken :: string
  lastPulledDates :: pulledDates

datatype kind = Companies | Contacts | Meetings

record searchObject =
  so_kind :: kind
  so_filter_gte :: jsdate
  so_filter_lte :: jsdate
  so_after :: "int option"

record world =
  accounts :: "account list"
  clientToken :: string
  expirationDate :: jsdate
  actions :: "outputAction list"
  goalCalls :: "outputAction list list"
  searches :: "searchObject list"

text \<open>
  \<^verbatim>\<open>createQueue\<close>: the queue's worker appends the action to \<open>actions\<close>; when the array
  then holds more than 2000 actions it is copied, emptied, and the copy goes to \<^verbatim>\<open>goal\<close>.
  Tasks run one at a time in the order of their pushes, so \<^verbatim>\<open>q.push\<close> is the worker
  applied to the state.
\<close>

definition push :: "outputAction \<Rightarrow> world \<Rightarrow> world" where
  "push a w =
     (let acts = actions w @ [a] in
      if length acts > 2000
      then w\<lparr>actions := [], goalCalls := goalCalls w @ [acts]\<rparr>
      else w\<lparr>actions := acts\<rparr>)"

fun pushAll :: "outputAction list \<Rightarrow> world \<Rightarrow> world" where
  "pushAll [] w = w"
| "pushAll (a # as) w = pushAll as (push a w)"

text \<open>\<^verbatim>\<open>const actions = []; const q = createQueue(domain, actions)\<close>\<close>

definition createQueue :: "world \<Rightarrow> world" where
  "createQueue w = w\<lparr>actions := []\<rparr>"

text \<open>\<^verbatim>\<open>drainQueue\<close>: what is left in \<open>actions\<close> goes to \<^verbatim>\<open>goal\<close>.\<close>

definition drainQueue :: "world \<Rightarrow> world" where
  "drainQueue w = (if length (actions w) > 0 then w\<lparr>goalCalls := goalCalls w @ [actions w]\<rparr> else w)"

section \<open>Transforming a page of records\<close>

datatype error = FetchAborted | TypeError | JsonError

subsection \<open>Companies\<close>

text \<open>
  The body of \<^verbatim>\<open>data.forEach\<close> in \<^verbatim>\<open>processCompanies\<close>: a company without a properties
  object is left out; \<^verbatim>\<open>!lastPulledDate\<close> is false, since \<open>lastPulledDate\<close> is a Date
  object.
\<close>

definition companyAction :: "jsdate \<Rightarrow> company \<Rightarrow> outputAction option" where
  "companyAction lastPulledDate c =
     (case company_properties c of
        None \<Rightarrow> None
      | Some p \<Rightarrow>
          let isCreated = date_gt (company_createdAt c) lastPulledDate in
          Some \<lparr>actionName = (if isCreated then ''Company Created'' else ''Company Updated''),
                actionDate = date_minus (if isCreated then company_createdAt c else company_updatedAt c) 2000,
                includeInAnalytics = 0,
                identity = None,
                companyProps_of = Some \<lparr>cprop_company_id = company_id c,
                                         cprop_company_domain = cp_domain p,
                                         cprop_company_industry = cp_industry p\<rparr>,
                userProperties = None\<rparr>)"

definition companyActions :: "jsdate \<Rightarrow> company list \<Rightarrow> outputAction list" where
  "companyActions lastPulledDate data = List.map_filter (companyAction lastPulledDate) data"

subsection \<open>Answers of the remote batch endpoints\<close>

text \<open>
  A call of a batch endpoint throws, or answers with a body that \<^verbatim>\<open>json()\<close> cannot read,
  or answers with the list under \<^verbatim>\<open>results\<close> (empty when the key is absent).
\<close>

datatype 'a apiResponse = Throws | BadBody | Body 'a

record assocResult =
  assoc_from :: "string option"
  assoc_to :: "string list option"

text \<open>
  An entry of \<^verbatim>\<open>contacts.batchApi.read\<close>: its id and its email; \<open>None\<close> when the entry has
  no properties object, \<open>Some None\<close> when the email is null.
\<close>

record batchContact =
  bc_id :: string
  bc_email :: "string option option"

subsection \<open>Contacts\<close>

text \<open>
  \<^verbatim>\<open>companyAssociationsResults\<close>: whatever goes wrong inside the \<^verbatim>\<open>try\<close> leaves the
  empty list.
\<close>

definition companyAssociationsResults :: "assocResult list apiResponse \<Rightarrow> assocResult list" where
  "companyAssociationsResults resp = (case resp of Body rs \<Rightarrow> rs | _ \<Rightarrow> [])"

text \<open>
  The entries of \<^verbatim>\<open>companyAssociations\<close>: an association with a \<open>from\<close> gives
  \<^verbatim>\<open>[from.id, to[0]?.id]\<close>, and \<^verbatim>\<open>to[0]\<close> throws when \<open>to\<close> is missing; this runs outside
  the \<^verbatim>\<open>try\<close> of the lookup.
\<close>

fun assocEntries :: "assocResult list \<Rightarrow> error + (string \<times> string option) list" where
  "assocEntries [] = Inr []"
| "assocEntries (a # as) =
     (case assoc_from a of
        None \<Rightarrow> assocEntries as
      | Some f \<Rightarrow>
          (case assoc_to a of
             None \<Rightarrow> Inl TypeError
           | Some ts \<Rightarrow>
               (case assocEntries as of
                  Inl e \<Rightarrow> Inl e
                | Inr es \<Rightarrow> Inr ((f, (case ts of [] \<Rightarrow> None | t # _ \<Rightarrow> Some t)) # es))))"

text \<open>\<^verbatim>\<open>Object.fromEntries(entries)[key]\<close>: the last entry of a key wins.\<close>

definition fromEntries :: "(string \<times> 'a option) list \<Rightarrow> string \<Rightarrow> 'a option" where
  "fromEntries es k = (case map_of (rev es) k of None \<Rightarrow> None | Some v \<Rightarrow> v)"

definition contactAction :: "jsdate \<Rightarrow> (string \<Rightarrow> string option) \<Rightarrow> contact \<Rightarrow> outputAction option" where
  "contactAction lastPulledDate companyAssociations c =
     (case contact_properties c of
        None \<Rightarrow> None
      | Some p \<Rightarrow>
          if \<not> truthy (email p) then None
          else
            let companyId = companyAssociations (contact_id c);
                isCreated = date_gt (contact_createdAt c) lastPulledDate
            in
            Some \<lparr>actionName = (if isCreated then ''Contact Created'' else ''Contact Updated''),
                  actionDate = (if isCreated then contact_createdAt c else contact_updatedAt c),
                  includeInAnalytics = 0,
                  identity = email p,
                  companyProps_of = None,
                  userProperties = Some (filterNullValuesFromObject
                    [(''company_id'', jstr companyId),
                     (''contact_name'', Some (JString (trim (orEmpty (firstname p) @ '' '' @ orEmpty (lastname p))))),
                     (''contact_title'', jstr (jobtitle p)),
                     (''contact_source'', jstr (hs_analytics_source p)),
                     (''contact_status'', jstr (hs_lead_status p)),
                     (''contact_score'', Some (JNumber (case hubspotscore p of None \<Rightarrow> 0 | Some n \<Rightarrow> n)))])\<rparr>)"

definition contactActions :: "jsdate \<Rightarrow> (string \<Rightarrow> string option) \<Rightarrow> contact list \<Rightarrow> outputAction list" where
  "contactActions lastPulledDate companyAssociations data =
     List.map_filter (contactAction lastPulledDate companyAssociations) data"

text \<open>
  One page of \<^verbatim>\<open>processContacts\<close> after the search: the association lookup, the map, the
  pushes. The result is the error thrown, if any, and the actions pushed, in order.
\<close>

definition contactsPage :: "jsdate \<Rightarrow> assocResult list apiResponse \<Rightarrow> contact list \<Rightarrow> error option \<times> outputAction list" where
  "contactsPage lastPulledDate resp data =
     (case assocEntries (companyAssociationsResults resp) of
        Inl e \<Rightarrow> (Some e, [])
      | Inr es \<Rightarrow> (None, contactActions lastPulledDate (fromEntries es) data))"

subsection \<open>Meetings\<close>

text \<open>
  \<^verbatim>\<open>meetingToContactsMap\<close>: each association with both \<open>from\<close> and \<open>to\<close> appends its
  contact ids to the entry of its meeting.
\<close>

definition addAssoc :: "(string \<Rightarrow> string list option) \<Rightarrow> assocResult \<Rightarrow> (string \<Rightarrow> string list option)" where
  "addAssoc m a =
     (case assoc_from a of
        None \<Rightarrow> m
      | Some mid \<Rightarrow>
          (case assoc_to a of
             None \<Rightarrow> m
           | Some ts \<Rightarrow> m(mid \<mapsto> (case m mid of None \<Rightarrow> [] | Some xs \<Rightarrow> xs) @ ts)))"

definition meetingToContactsMap :: "assocResult list \<Rightarrow> (string \<Rightarrow> string list option)" where
  "meetingToContactsMap rs = foldl addAssoc Map.empty rs"

text \<open>
  \<^verbatim>\<open>allContactIds\<close>, in the order of the response (JavaScript lists the map's values in
  the order of its keys; the code uses the list only to ask for the emails and to test
  whether it is empty).
\<close>

definition allContactIds :: "assocResult list \<Rightarrow> string list" where
  "allContactIds rs =
     concat (map (\<lambda>a. case assoc_from a of None \<Rightarrow> [] | Some _ \<Rightarrow> (case assoc_to a of None \<Rightarrow> [] | Some ts \<Rightarrow> ts)) rs)"

definition uniqueContactIds :: "assocResult list \<Rightarrow> string list" where
  "uniqueContactIds rs = remdups (allContactIds rs)"

text \<open>
  \<^verbatim>\<open>contactIdToEmail\<close>: empty unless the batch read answers and every entry has its
  properties (\<^verbatim>\<open>c.properties.email\<close> throws inside the \<^verbatim>\<open>try\<close> otherwise).
\<close>

definition contactIdToEmail :: "batchContact list apiResponse \<Rightarrow> string \<Rightarrow> string option" where
  "contactIdToEmail resp =
     (case resp of
        Body res \<Rightarrow>
          if list_all (\<lambda>c. bc_email c \<noteq> None) res
          then fromEntries (map (\<lambda>c. (bc_id c, the (bc_email c))) res)
          else (\<lambda>_. None)
      | _ \<Rightarrow> (\<lambda>_. None))"

text \<open>The pushes of one meeting: one action for each associated contact with an email.\<close>

definition meetingActions :: "jsdate \<Rightarrow> string list \<Rightarrow> (string \<Rightarrow> string option) \<Rightarrow> meetingProps \<Rightarrow> outputAction list" where
  "meetingActions lastPulledDate contactIds emails p =
     (let isCreated = date_gt (hs_createdate p) lastPulledDate in
      map (\<lambda>cid.
            \<lparr>actionName = (if isCreated then ''Meeting Created'' else ''Meeting Updated''),
             actionDate = (if isCreated then hs_createdate p else hs_lastmodifieddate p),
             includeInAnalytics = 0,
             identity = emails cid,
             companyProps_of = None,
             userProperties = Some (filterNullValuesFromObject
               [(''meeting_title'', jstr (hs_meeting_title p)),
                (''meeting_start_time'', jstr (hs_meeting_start_time p)),
                (''meeting_end_time'', jstr (hs_meeting_end_time p))])\<rparr>)
          (filter (\<lambda>cid. truthy (emails cid)) contactIds))"

text \<open>\<^verbatim>\<open>meetingToContactsMap[meeting.id] || []\<close>\<close>

definition attendees :: "(string \<Rightarrow> string list option) \<Rightarrow> meeting \<Rightarrow> string list" where
  "attendees m2c m = (case m2c (meeting_id m) of None \<Rightarrow> [] | Some xs \<Rightarrow> xs)"

text \<open>
  \<^verbatim>\<open>data.forEach\<close> in \<^verbatim>\<open>processMeetings\<close>: \<^verbatim>\<open>meeting.properties.hs_createdate\<close> throws at
  the first meeting without a properties object; what was pushed before stays pushed.
\<close>

fun meetingsForEach :: "jsdate \<Rightarrow> (string \<Rightarrow> string list option) \<Rightarrow> (string \<Rightarrow> string option) \<Rightarrow> meeting list \<Rightarrow> error option \<times> outputAction list" where
  "meetingsForEach lastPulledDate m2c emails [] = (None, [])"
| "meetingsForEach lastPulledDate m2c emails (m # ms) =
     (case meeting_properties m of
        None \<Rightarrow> (Some TypeError, [])
      | Some p \<Rightarrow>
          let contactIds = attendees m2c m;
              acts = meetingActions lastPulledDate contactIds emails p;
              (e, rest) = meetingsForEach lastPulledDate m2c emails ms
          in (e, acts @ rest))"

text \<open>
  One page of \<^verbatim>\<open>processMeetings\<close> after the search. The association lookup is made only
  for a page with records; its \<^verbatim>\<open>json()\<close> is read outside the \<^verbatim>\<open>try\<close>. The batch read
  is made only when some contact id was found. The result is the error thrown, if any,
  and the actions pushed, in order.
\<close>

definition meetingsPage :: "jsdate \<Rightarrow> assocResult list apiResponse \<Rightarrow> batchContact list apiResponse \<Rightarrow> meeting list \<Rightarrow> error option \<times> outputAction list" where
  "meetingsPage lastPulledDate resp batch data =
     (if data \<noteq> [] \<and> resp = BadBody then (Some JsonError, [])
      else
        let meetingContactAssociations = (if data = [] then [] else (case resp of Body rs \<Rightarrow> rs | _ \<Rightarrow> []));
            m2c = meetingToContactsMap meetingContactAssociations;
            emails = (if length (uniqueContactIds meetingContactAssociations) > 0
                      then contactIdToEmail batch else (\<lambda>_. None))
        in meetingsForEach lastPulledDate m2c emails data)"

section \<open>Credentials\<close>

text \<open>
  The answer of the OAuth token endpoint: the call throws, or its body carries the new
  access token and \<open>expiresIn\<close>; the third field is the clock (\<^verbatim>\<open>new Date().getTime()\<close>)
  read when the answer is handled.
\<close>

datatype oauthResult = OAuthThrows | OAuthBody string int int

text \<open>
  \<^verbatim>\<open>accounts.find((acc) => acc.hubId === hubId)\<close>: the account object found is the
  first with that id; the model names it by its position.
\<close>

fun findAccount :: "string \<Rightarrow> account list \<Rightarrow> nat option" where
  "findAccount h [] = None"
| "findAccount h (a # as) = (if hubId a = h then Some 0 else map_option Suc (findAccount h as))"

definition refreshAccessToken :: "string \<Rightarrow> oauthResult \<Rightarrow> world \<Rightarrow> bool \<times> world" where
  "refreshAccessToken h answer w =
     (case findAccount h (accounts w) of
        None \<Rightarrow> (False, w)
      | Some i \<Rightarrow>
          (case answer of
             OAuthThrows \<Rightarrow> (False, w)
           | OAuthBody newAccessToken expiresIn clock \<Rightarrow>
               (True,
                w\<lparr>expirationDate := Valid (expiresIn * 1000 + clock),
                  clientToken := newAccessToken,
                  accounts := (if newAccessToken \<noteq> accessToken (accounts w ! i)
                               then (accounts w)[i := (accounts w ! i)\<lparr>accessToken := newAccessToken\<rparr>]
                               else accounts w)\<rparr>)))"

section \<open>The paginated search\<close>

text \<open>
  What the remote side does during one turn of the \<^verbatim>\<open>while (hasMore)\<close> loop is given
  to the model as a page: the outcome of the search at each value of \<open>tryCount\<close>, and the
  answers of the batch endpoints. A search that throws comes with the clock read in the
  \<^verbatim>\<open>catch\<close> block and the answer the token endpoint gives if it is asked. A search that
  answers gives \<open>results\<close> and \<^verbatim>\<open>parseInt(paging.next.after)\<close>, \<open>None\<close> for NaN.
\<close>

record failure =
  failedAt :: int
  oauth :: oauthResult

record 'r searchResult =
  sr_results :: "'r list"
  sr_after :: "int option"

datatype 'r attempt = Rejects failure | Resolves "'r searchResult"

record 'r page =
  attempts :: "nat \<Rightarrow> 'r attempt"
  associations :: "assocResult list apiResponse"
  contactsBatch :: "batchContact list apiResponse"

text \<open>\<^verbatim>\<open>searchApi.doSearch(searchObject)\<close> is called: the request joins those sent.\<close>

definition sendSearch :: "searchObject \<Rightarrow> world \<Rightarrow> world" where
  "sendSearch so w = w\<lparr>searches := searches w @ [so]\<rparr>"

text \<open>The \<^verbatim>\<open>catch\<close> block: \<^verbatim>\<open>if (new Date() > expirationDate) await refreshAccessToken(...)\<close>\<close>

definition onFailure :: "string \<Rightarrow> failure \<Rightarrow> world \<Rightarrow> world" where
  "onFailure h f w =
     (if date_gt (Valid (failedAt f)) (expirationDate w)
      then snd (refreshAccessToken h (oauth f) w) else w)"

text \<open>
  The retry loop \<^verbatim>\<open>while (tryCount <= 4)\<close>: each turn sends the search; a failure
  refreshes the token when the clock is past the tracked expiry, and tries again. The
  backoff sleep changes no state. The result is the answer, or \<open>None\<close> when the five
  attempts have thrown.
\<close>

function fetchPage :: "string \<Rightarrow> searchObject \<Rightarrow> (nat \<Rightarrow> 'r attempt) \<Rightarrow> nat \<Rightarrow> world \<Rightarrow> 'r searchResult option \<times> world" where
  "fetchPage h so att tryCount w =
     (if tryCount \<le> 4 then
        (case att tryCount of
           Resolves sr \<Rightarrow> (Some sr, sendSearch so w)
         | Rejects f \<Rightarrow> fetchPage h so att (tryCount + 1) (onFailure h f (sendSearch so w)))
      else (None, w))"
  by pat_completeness auto
termination
  by (relation "measure (\<lambda>(h, so, att, tryCount, w). 5 - tryCount)") auto

declare fetchPage.simps [simp del]

text \<open>
  \<open>offsetObject\<close>: \<open>after\<close> is undefined or NaN (\<open>None\<close>) or a number;
  \<open>lastModifiedDate\<close> is undefined (\<open>None\<close>) or the \<^verbatim>\<open>valueOf()\<close> of a date.
\<close>

record offsetObject =
  oo_after :: "int option"
  oo_lastModifiedDate :: "jsdate option"

text \<open>
  \<^verbatim>\<open>offsetObject.lastModifiedDate || lastPulledDate\<close>: undefined, NaN and 0 are false.
\<close>

definition windowStart :: "offsetObject \<Rightarrow> jsdate \<Rightarrow> jsdate" where
  "windowStart oo lastPulledDate =
     (case oo_lastModifiedDate oo of
        Some (Valid n) \<Rightarrow> if n \<noteq> 0 then Valid n else lastPulledDate
      | _ \<Rightarrow> lastPulledDate)"

text \<open>
  \<^verbatim>\<open>generateLastModifiedDateFilter\<close>: the date it gets is a Date object or a non-zero
  number, so the filter is never empty.
\<close>

definition generateLastModifiedDateFilter :: "jsdate \<Rightarrow> int \<Rightarrow> jsdate \<times> jsdate" where
  "generateLastModifiedDateFilter date nowDate = (date, Valid nowDate)"

definition makeSearchObject :: "kind \<Rightarrow> offsetObject \<Rightarrow> jsdate \<Rightarrow> int \<Rightarrow> searchObject" where
  "makeSearchObject k oo lastPulledDate now =
     (let (gte, lte) = generateLastModifiedDateFilter (windowStart oo lastPulledDate) now in
      \<lparr>so_kind = k, so_filter_gte = gte, so_filter_lte = lte, so_after = oo_after oo\<rparr>)"

text \<open>\<^verbatim>\<open>!offsetObject?.after\<close>\<close>

definition noAfter :: "int option \<Rightarrow> bool" where
  "noAfter a = (case a of None \<Rightarrow> True | Some n \<Rightarrow> n = 0)"

text \<open>
  One turn of the loop \<^verbatim>\<open>while (hasMore)\<close>, which the three passes share word for word.
  They differ in \<open>processPage\<close> (the actions pushed for the records of a page, and the
  error thrown on the way, if any) and in \<open>lastModified\<close> (the last-modified time read
  from the last record when the cursor is reset). A turn ends the loop, with the error
  thrown if any, or leaves the \<open>offsetObject\<close> for the next turn.
\<close>

datatype turn = Stop "error option" world | Again offsetObject world

definition loopBody :: "kind \<Rightarrow> string \<Rightarrow> ('r page \<Rightarrow> 'r list \<Rightarrow> error option \<times> outputAction list) \<Rightarrow> ('r \<Rightarrow> error + jsdate)
    \<Rightarrow> jsdate \<Rightarrow> int \<Rightarrow> 'r page \<Rightarrow> offsetObject \<Rightarrow> world \<Rightarrow> turn" where
  "loopBody k h processPage lastModified lastPulledDate now p oo w =
     (case fetchPage h (makeSearchObject k oo lastPulledDate now) (attempts p) 0 w of
        (None, w1) \<Rightarrow> Stop (Some FetchAborted) w1
      | (Some searchResult, w1) \<Rightarrow>
          (case processPage p (sr_results searchResult) of
             (Some e, acts) \<Rightarrow> Stop (Some e) (pushAll acts w1)
           | (None, acts) \<Rightarrow>
               let w2 = pushAll acts w1 in
               if noAfter (sr_after searchResult) then Stop None w2
               else if the (sr_after searchResult) \<ge> 9900 then
                 (case sr_results searchResult of
                    [] \<Rightarrow> Stop (Some TypeError) w2
                  | _ \<Rightarrow>
                      (case lastModified (last (sr_results searchResult)) of
                         Inl e \<Rightarrow> Stop (Some e) w2
                       | Inr d \<Rightarrow> Again \<lparr>oo_after = Some 0, oo_lastModifiedDate = Some d\<rparr> w2))
               else Again (oo\<lparr>oo_after := sr_after searchResult\<rparr>) w2))"

text \<open>
  The loop over the pages given. The result is \<open>None\<close> when they do not reach the end of
  the loop; otherwise the error thrown, if any, and the state reached.
\<close>

fun passLoop :: "kind \<Rightarrow> string \<Rightarrow> ('r page \<Rightarrow> 'r list \<Rightarrow> error option \<times> outputAction list) \<Rightarrow> ('r \<Rightarrow> error + jsdate)
    \<Rightarrow> jsdate \<Rightarrow> int \<Rightarrow> 'r page list \<Rightarrow> offsetObject \<Rightarrow> world \<Rightarrow> (error option \<times> world) option" where
  "passLoop k h processPage lastModified lastPulledDate now [] oo w = None"
| "passLoop k h processPage lastModified lastPulledDate now (p # ps) oo w =
     (case loopBody k h processPage lastModified lastPulledDate now p oo w of
        Stop e w' \<Rightarrow> Some (e, w')
      | Again oo' w' \<Rightarrow> passLoop k h processPage lastModified lastPulledDate now ps oo' w')"

section \<open>The three passes\<close>

record 'r passScript =
  ps_now :: int
  ps_pages :: "'r page list"

definition watermark :: "kind \<Rightarrow> account \<Rightarrow> jsdate" where
  "watermark k a =
     (case k of Companies \<Rightarrow> pd_companies (lastPulledDates a)
              | Contacts \<Rightarrow> pd_contacts (lastPulledDates a)
              | Meetings \<Rightarrow> pd_meetings (lastPulledDates a))"

text \<open>\<^verbatim>\<open>account.lastPulledDates.<kind> = now\<close>\<close>

definition commit :: "kind \<Rightarrow> nat \<Rightarrow> int \<Rightarrow> world \<Rightarrow> world" where
  "commit k i now w =
     (let a = accounts w ! i;
          d = lastPulledDates a;
          d' = (case k of Companies \<Rightarrow> d\<lparr>pd_companies := Valid now\<rparr>
                        | Contacts \<Rightarrow> d\<lparr>pd_contacts := Valid now\<rparr>
                        | Meetings \<Rightarrow> d\<lparr>pd_meetings := Valid now\<rparr>)
      in w\<lparr>accounts := (accounts w)[i := a\<lparr>lastPulledDates := d'\<rparr>]\<rparr>)"

definition initialOffset :: offsetObject where
  "initialOffset = \<lparr>oo_after = None, oo_lastModifiedDate = None\<rparr>"

text \<open>
  The frame the three passes share: find the account, read its watermark, capture
  \<open>now\<close>, run the loop, and commit \<open>now\<close> when the loop ends without an error. An error
  thrown inside is caught and the pass returns false. \<^verbatim>\<open>saveDomain\<close> returns at once in the
  source (its body is commented out), so it has no part here.
\<close>

definition runPass :: "kind \<Rightarrow> (jsdate \<Rightarrow> 'r page \<Rightarrow> 'r list \<Rightarrow> error option \<times> outputAction list) \<Rightarrow> ('r \<Rightarrow> error + jsdate)
    \<Rightarrow> string \<Rightarrow> 'r passScript \<Rightarrow> world \<Rightarrow> (bool \<times> world) option" where
  "runPass k processPage lastModified h s w =
     (case findAccount h (accounts w) of
        None \<Rightarrow> Some (False, w)
      | Some i \<Rightarrow>
          let lastPulledDate = watermark k (accounts w ! i);
              now = ps_now s
          in
          (case passLoop k h (processPage lastPulledDate) lastModified lastPulledDate now (ps_pages s) initialOffset w of
             None \<Rightarrow> None
           | Some (Some e, w') \<Rightarrow> Some (False, w')
           | Some (None, w') \<Rightarrow> Some (True, commit k i now w')))"

definition companiesPage :: "jsdate \<Rightarrow> company page \<Rightarrow> company list \<Rightarrow> error option \<times> outputAction list" where
  "companiesPage lastPulledDate p data = (None, companyActions lastPulledDate data)"

definition processCompanies :: "string \<Rightarrow> company passScript \<Rightarrow> world \<Rightarrow> (bool \<times> world) option" where
  "processCompanies = runPass Companies companiesPage (\<lambda>c. Inr (company_updatedAt c))"

definition processContacts :: "string \<Rightarrow> contact passScript \<Rightarrow> world \<Rightarrow> (bool \<times> world) option" where
  "processContacts =
     runPass Contacts (\<lambda>lastPulledDate p. contactsPage lastPulledDate (associations p))
       (\<lambda>c. Inr (contact_updatedAt c))"

text \<open>
  \<^verbatim>\<open>data[data.length - 1].properties.hs_lastmodifieddate\<close> throws when the last meeting has
  no properties object.
\<close>

definition meetingLastModified :: "meeting \<Rightarrow> error + jsdate" where
  "meetingLastModified m =
     (case meeting_properties m of None \<Rightarrow> Inl TypeError | Some p \<Rightarrow> Inr (hs_lastmodifieddate p))"

definition processMeetings :: "string \<Rightarrow> meeting passScript \<Rightarrow> world \<Rightarrow> (bool \<times> world) option" where
  "processMeetings =
     runPass Meetings (\<lambda>lastPulledDate p. meetingsPage lastPulledDate (associations p) (contactsBatch p))
       meetingLastModified"

section \<open>The run\<close>

record accountScript =
  as_refresh :: oauthResult
  as_contacts :: "contact passScript"
  as_companies :: "company passScript"
  as_meetings :: "meeting passScript"

text \<open>
  One turn of the loop over the accounts in \<^verbatim>\<open>pullDataFromHubspot\<close>: refresh the token,
  make the queue, run the three passes whatever each returns, drain the queue.
\<close>

definition processAccount :: "accountScript \<Rightarrow> string \<Rightarrow> world \<Rightarrow> world option" where
  "processAccount s h w =
     (let w1 = createQueue (snd (refreshAccessToken h (as_refresh s) w)) in
      case processContacts h (as_contacts s) w1 of
        None \<Rightarrow> None
      | Some (_, w2) \<Rightarrow>
          (case processCompanies h (as_companies s) w2 of
             None \<Rightarrow> None
           | Some (_, w3) \<Rightarrow>
               (case processMeetings h (as_meetings s) w3 of
                  None \<Rightarrow> None
                | Some (_, w4) \<Rightarrow> Some (drainQueue w4))))"

fun pullAccounts :: "accountScript list \<Rightarrow> string list \<Rightarrow> world \<Rightarrow> world option" where
  "pullAccounts ss [] w = Some w"
| "pullAccounts [] (h # hs) w = None"
| "pullAccounts (s # ss) (h # hs) w =
     (case processAccount s h w of None \<Rightarrow> None | Some w' \<Rightarrow> pullAccounts ss hs w')"

definition pullDataFromHubspot :: "accountScript list \<Rightarrow> world \<Rightarrow> world option" where
  "pullDataFromHubspot ss w = pullAccounts ss (map hubId (accounts w)) w"

section \<open>What the claims observe\<close>

text \<open>The id and the watermarks of every account, in the order of the accounts.\<close>

definition watermarks :: "world \<Rightarrow> (string \<times> pulledDates) list" where
  "watermarks w = map (\<lambda>a. (hubId a, lastPulledDates a)) (accounts w)"

text \<open>\<^verbatim>\<open>account.lastPulledDates.<kind>\<close> of the account that \<^verbatim>\<open>find\<close> gives for an id.\<close>

definition committed :: "kind \<Rightarrow> string \<Rightarrow> world \<Rightarrow> jsdate option" where
  "committed k h w = map_option (\<lambda>i. watermark k (accounts w ! i)) (findAccount h (accounts w))"

text \<open>
  Every action the queue has taken so far, in order: those already handed to \<^verbatim>\<open>goal\<close>,
  then those still in \<open>actions\<close>.
\<close>

definition delivered :: "world \<Rightarrow> outputAction list" where
  "delivered w = concat (goalCalls w) @ actions w"

text \<open>What a pass leaves for its output: the actions taken and the watermarks.\<close>

definition observed :: "world \<Rightarrow> outputAction list list \<times> outputAction list \<times> (string \<times> pulledDates) list" where
  "observed w = (goalCalls w, actions w, watermarks w)"

text \<open>The search throws at this value of \<open>tryCount\<close>.\<close>

definition rejects :: "'r attempt \<Rightarrow> bool" where
  "rejects a = (case a of Rejects _ \<Rightarrow> True | Resolves _ \<Rightarrow> False)"

text \<open>The search of a page throws five times in a row.\<close>

definition fetchFails :: "'r page \<Rightarrow> bool" where
  "fetchFails p = list_all (\<lambda>i. rejects (attempts p i)) [0..<5]"

text \<open>The search of a page throws \<open>n\<close> times and then answers \<open>sr\<close>.\<close>

definition answersAfter :: "nat \<Rightarrow> 'r searchResult \<Rightarrow> 'r page \<Rightarrow> bool" where
  "answersAfter n sr p = (list_all (\<lambda>i. rejects (attempts p i)) [0..<n] \<and> attempts p n = Resolves sr)"

text \<open>
  The answer the retry loop ends with, started at a value of \<open>tryCount\<close>: it depends on the
  attempts alone.
\<close>

function answer :: "(nat \<Rightarrow> 'r attempt) \<Rightarrow> nat \<Rightarrow> 'r searchResult option" where
  "answer att tryCount =
     (if tryCount \<le> 4 then
        (case att tryCount of Resolves sr \<Rightarrow> Some sr | Rejects f \<Rightarrow> answer att (tryCount + 1))
      else None)"
  by pat_completeness auto
termination
  by (relation "measure (\<lambda>(att, tryCount). 5 - tryCount)") auto

declare answer.simps [simp del]

text \<open>
  A search request that restarts the cursor: the loop sends \<^verbatim>\<open>after: 0\<close> only after the
  reset of the cursor (a cursor 0 in an answer ends the loop).
\<close>

definition isReset :: "searchObject \<Rightarrow> bool" where
  "isReset so = (so_after so = Some 0)"

text \<open>The cursor an answer carries stays below the depth limit.\<close>

definition shallow :: "'r page \<Rightarrow> bool" where
  "shallow p = (case answer (attempts p) 0 of
                  None \<Rightarrow> True
                | Some sr \<Rightarrow> (case sr_after sr of None \<Rightarrow> True | Some a \<Rightarrow> a < 9900))"

text \<open>
  How a turn ends depends on the answer of the search, on the page's records and on the
  \<open>offsetObject\<close>, not on the state.
\<close>

definition verdict :: "('r page \<Rightarrow> 'r list \<Rightarrow> error option \<times> outputAction list) \<Rightarrow> ('r \<Rightarrow> error + jsdate)
    \<Rightarrow> 'r page \<Rightarrow> offsetObject \<Rightarrow> 'r searchResult \<Rightarrow> error option + offsetObject" where
  "verdict pp lm p oo sr =
     (case fst (pp p (sr_results sr)) of
        Some e \<Rightarrow> Inl (Some e)
      | None \<Rightarrow>
          if noAfter (sr_after sr) then Inl None
          else if the (sr_after sr) \<ge> 9900 then
            (case sr_results sr of
               [] \<Rightarrow> Inl (Some TypeError)
             | _ \<Rightarrow>
                 (case lm (last (sr_results sr)) of
                    Inl e \<Rightarrow> Inl (Some e)
                  | Inr d \<Rightarrow> Inr \<lparr>oo_after = Some 0, oo_lastModifiedDate = Some d\<rparr>))
          else Inr (oo\<lparr>oo_after := sr_after sr\<rparr>))"

text \<open>The state after the retry loop of a turn.\<close>

definition fetched :: "kind \<Rightarrow> string \<Rightarrow> jsdate \<Rightarrow> int \<Rightarrow> 'r page \<Rightarrow> offsetObject \<Rightarrow> world \<Rightarrow> world" where
  "fetched k h lp now p oo w = snd (fetchPage h (makeSearchObject k oo lp now) (attempts p) 0 w)"

text \<open>Some meeting of the page has no properties object.\<close>

definition missingProperties :: "meeting list \<Rightarrow> bool" where
  "missingProperties data = list_ex (\<lambda>m. meeting_properties m = None) data"

text \<open>The records the searches of a pass answer with, page after page.\<close>

definition fetchedRecords :: "'r passScript \<Rightarrow> 'r list" where
  "fetchedRecords s =
     concat (map (\<lambda>p. case answer (attempts p) 0 of None \<Rightarrow> [] | Some sr \<Rightarrow> sr_results sr) (ps_pages s))"

text \<open>
  The rule an action follows: named "created" when the creation time of its record is
  strictly after the watermark, and dated by that creation time less an offset; named
  "updated" otherwise, and dated by the last-modified time less the offset.
\<close>

definition classified :: "string \<Rightarrow> string \<Rightarrow> jsdate \<Rightarrow> jsdate \<Rightarrow> jsdate \<Rightarrow> int \<Rightarrow> outputAction \<Rightarrow> bool" where
  "classified createdName updatedName createdAt updatedAt lastPulledDate offset a =
     (if date_gt createdAt lastPulledDate
      then actionName a = createdName \<and> actionDate a = date_minus createdAt offset
      else actionName a = updatedName \<and> actionDate a = date_minus updatedAt offset)"

definition companyRule :: "jsdate \<Rightarrow> company \<Rightarrow> outputAction \<Rightarrow> bool" where
  "companyRule lp c a =
     classified ''Company Created'' ''Company Updated'' (company_createdAt c) (company_updatedAt c) lp 2000 a"

definition contactRule :: "jsdate \<Rightarrow> contact \<Rightarrow> outputAction \<Rightarrow> bool" where
  "contactRule lp c a =
     classified ''Contact Created'' ''Contact Updated'' (contact_createdAt c) (contact_updatedAt c) lp 0 a"

definition meetingRule :: "jsdate \<Rightarrow> meetingProps \<Rightarrow> outputAction \<Rightarrow> bool" where
  "meetingRule lp p a =
     classified ''Meeting Created'' ''Meeting Updated'' (hs_createdate p) (hs_lastmodifieddate p) lp 0 a"

text \<open>A contact whose email is missing: no properties object, or no email, or an empty one.\<close>

definition noEmail :: "contact \<Rightarrow> bool" where
  "noEmail c = (case contact_properties c of None \<Rightarrow> True | Some p \<Rightarrow> \<not> truthy (email p))"

text \<open>None of the contacts of a meeting resolves to an email.\<close>

definition noIdentity :: "(string \<Rightarrow> string list option) \<Rightarrow> (string \<Rightarrow> string option) \<Rightarrow> meeting \<Rightarrow> bool" where
  "noIdentity m2c emails m = list_all (\<lambda>cid. \<not> truthy (emails cid)) (attendees m2c m)"

text \<open>An action of a contact that names a company.\<close>

definition linked :: "outputAction \<Rightarrow> bool" where
  "linked a = (case userProperties a of None \<Rightarrow> False | Some ps \<Rightarrow> ''company_id'' \<in> set (map fst ps))"

text \<open>What a pass returns and what it leaves for its output.\<close>

definition outcome :: "bool \<times> world \<Rightarrow> bool \<times> outputAction list list \<times> outputAction list \<times> (string \<times> pulledDates) list" where
  "outcome r = (fst r, observed (snd r))"

text \<open>Two pages whose searches end with the same answer and whose records are processed alike.\<close>

definition samePage :: "('r page \<Rightarrow> 'r list \<Rightarrow> error option \<times> outputAction list) \<Rightarrow> 'r page \<Rightarrow> 'r page \<Rightarrow> bool" where
  "samePage pp p p' = (answer (attempts p) 0 = answer (attempts p') 0 \<and> pp p = pp p')"

text \<open>A search request of a pass that keeps the window of the start and does not restart the cursor.\<close>

definition unmoved :: "jsdate \<Rightarrow> searchObject \<Rightarrow> bool" where
  "unmoved lastPulledDate so = (\<not> isReset so \<and> so_filter_gte so = lastPulledDate)"

text \<open>An \<open>offsetObject\<close> before any reset: no narrowed window, no restarted cursor.\<close>

definition fresh :: "offsetObject \<Rightarrow> bool" where
  "fresh oo = (oo_lastModifiedDate oo = None \<and> oo_after oo \<noteq> Some 0)"

section \<open>Concrete inputs\<close>

text \<open>Accounts, records, pages and scripts on which the theorems below are run.\<close>

definition exAccount :: "string \<Rightarrow> account" where
  "exAccount h = \<lparr>hubId = h, accessToken = ''t0'', refreshToken = ''r0'',
     lastPulledDates = \<lparr>pd_companies = Valid 1000, pd_contacts = Valid 1000, pd_meetings = Valid 1000\<rparr>\<rparr>"

definition exWorld :: world where
  "exWorld = \<lparr>accounts = [exAccount ''hub1'', exAccount ''hub2''], clientToken = ''t0'', expirationDate = Invalid,
     actions = [], goalCalls = [], searches = []\<rparr>"

definition exCompany :: "string \<Rightarrow> int \<Rightarrow> int \<Rightarrow> company" where
  "exCompany i c u = \<lparr>company_id = i, company_properties = Some \<lparr>cp_domain = Some ''a.com'', cp_industry = None\<rparr>,
     company_createdAt = Valid c, company_updatedAt = Valid u\<rparr>"

definition exContact :: "string \<Rightarrow> string option \<Rightarrow> int \<Rightarrow> int \<Rightarrow> contact" where
  "exContact i e c u = \<lparr>contact_id = i,
     contact_properties = Some \<lparr>firstname = Some ''Ada'', lastname = None, jobtitle = None, email = e,
       hubspotscore = Some 7, hs_lead_status = None, hs_analytics_source = Some ''direct''\<rparr>,
     contact_createdAt = Valid c, contact_updatedAt = Valid u\<rparr>"

definition exMeeting :: "string \<Rightarrow> int \<Rightarrow> int \<Rightarrow> meeting" where
  "exMeeting i c u = \<lparr>meeting_id = i,
     meeting_properties = Some \<lparr>hs_meeting_title = Some ''Kickoff'', hs_meeting_start_time = None,
       hs_meeting_end_time = None, hs_createdate = Valid c, hs_lastmodifieddate = Valid u\<rparr>\<rparr>"

definition exFailure :: failure where
  "exFailure = \<lparr>failedAt = 4000, oauth = OAuthBody ''t1'' 1800 4000\<rparr>"

text \<open>A page whose search answers at once, with these records and this cursor.\<close>

definition pageOf :: "'r list \<Rightarrow> int option \<Rightarrow> 'r page" where
  "pageOf rs a = \<lparr>attempts = (\<lambda>i. Resolves \<lparr>sr_results = rs, sr_after = a\<rparr>),
     associations = Body [], contactsBatch = Body []\<rparr>"

text \<open>A page whose search throws \<open>n\<close> times before it answers.\<close>

definition pageAfter :: "nat \<Rightarrow> 'r list \<Rightarrow> int option \<Rightarrow> 'r page" where
  "pageAfter n rs a = \<lparr>attempts = (\<lambda>i. if i < n then Rejects exFailure else Resolves \<lparr>sr_results = rs, sr_after = a\<rparr>),
     associations = Body [], contactsBatch = Body []\<rparr>"

definition exCompaniesPass :: "company passScript" where
  "exCompaniesPass = \<lparr>ps_now = 5000, ps_pages = [pageOf [exCompany ''c1'' 2000 3000, exCompany ''c2'' 500 3000] None]\<rparr>"

definition exContactsPass :: "contact passScript" where
  "exContactsPass = \<lparr>ps_now = 6000, ps_pages = [pageOf [exContact ''p1'' (Some ''ada@a.com'') 2000 3000] None]\<rparr>"

definition exMeetingsPass :: "meeting passScript" where
  "exMeetingsPass = \<lparr>ps_now = 7000, ps_pages = [pageOf [exMeeting ''m1'' 2000 3000] None]\<rparr>"

text \<open>A page whose search throws at every attempt.\<close>

definition failingPage :: "'r page" where
  "failingPage = \<lparr>attempts = (\<lambda>i. Rejects exFailure), associations = Body [], contactsBatch = Body []\<rparr>"

definition exFailingContacts :: "contact passScript" where
  "exFailingContacts = \<lparr>ps_now = 6000,
     ps_pages = [pageOf [exContact ''p1'' (Some ''ada@a.com'') 2000 3000] (Some 100)] @ failingPage # []\<rparr>"

definition exAccountScript :: accountScript where
  "exAccountScript = \<lparr>as_refresh = OAuthThrows, as_contacts = exFailingContacts,
     as_companies = exCompaniesPass, as_meetings = exMeetingsPass\<rparr>"

definition exGoodScript :: accountScript where
  "exGoodScript = \<lparr>as_refresh = OAuthBody ''t2'' 1800 100, as_contacts = exContactsPass,
     as_companies = exCompaniesPass, as_meetings = exMeetingsPass\<rparr>"

definition bareMeeting :: meeting where
  "bareMeeting = \<lparr>meeting_id = ''m2'', meeting_properties = None\<rparr>"


definition bareContact :: contact where
  "bareContact = \<lparr>contact_id = ''p9'', contact_properties = None,
     contact_createdAt = Valid 2000, contact_updatedAt = Valid 3000\<rparr>"

definition exMeetingProps :: meetingProps where
  "exMeetingProps = \<lparr>hs_meeting_title = Some ''Kickoff'', hs_meeting_start_time = None,
     hs_meeting_end_time = None, hs_createdate = Valid 2000, hs_lastmodifieddate = Valid 3000\<rparr>"

definition exAssoc :: "string \<Rightarrow> string list \<Rightarrow> assocResult" where
  "exAssoc f ts = \<lparr>assoc_from = Some f, assoc_to = Some ts\<rparr>"

text \<open>A state in which the tracked expiry has passed, so that a failed search refreshes the token.\<close>

definition exExpiredWorld :: world where
  "exExpiredWorld = exWorld\<lparr>expirationDate := Valid 100\<rparr>"

definition exCompanies :: "company list" where
  "exCompanies = [exCompany ''c1'' 2000 3000, exCompany ''c2'' 500 3000]"

definition exContacts :: "contact list" where
  "exContacts = [exContact ''p1'' (Some ''ada@a.com'') 2000 3000]"

definition exMeetings :: "meeting list" where
  "exMeetings = [exMeeting ''m1'' 2000 3000]"

text \<open>
  A page of meetings whose search answers at once and whose association lookup answers
  with a body that \<^verbatim>\<open>json()\<close> cannot read.
\<close>

definition exUnreadablePage :: "meeting page" where
  "exUnreadablePage = \<lparr>attempts = (\<lambda>i. Resolves \<lparr>sr_results = exMeetings, sr_after = None\<rparr>),
     associations = BadBody, contactsBatch = Body []\<rparr>"

text \<open>Three companies on two pages, the cursor far below the limit.\<close>

definition exTwoPages :: "company passScript" where
  "exTwoPages = \<lparr>ps_now = 5000,
     ps_pages = [pageOf [exCompany ''c1'' 2000 3000, exCompany ''c2'' 500 3000] (Some 2),
                 pageOf [exCompany ''c3'' 2000 4000] None]\<rparr>"

text \<open>A page that ends at the depth limit, its last record modified at time \<open>u\<close>; then a last page.\<close>

definition exDeepPass :: "int \<Rightarrow> company passScript" where
  "exDeepPass u = \<lparr>ps_now = 5000,
     ps_pages = [pageOf [exCompany ''c1'' 500 u] (Some 9900), pageOf [exCompany ''c2'' 500 4000] None]\<rparr>"

definition exTwoContactPages :: "contact passScript" where
  "exTwoContactPages = \<lparr>ps_now = 6000,
     ps_pages = [pageOf [exContact ''p1'' (Some ''ada@a.com'') 2000 3000] (Some 1),
                 pageOf [exContact ''p2'' (Some ''bob@b.com'') 2000 4000] None]\<rparr>"

definition exTwoMeetingPages :: "meeting passScript" where
  "exTwoMeetingPages = \<lparr>ps_now = 7000,
     ps_pages = [pageOf [exMeeting ''m1'' 2000 3000] (Some 1), pageOf [exMeeting ''m2'' 2000 4000] None]\<rparr>"

section \<open>The action buffer: every action is flushed once\<close>

lemma delivered_push: "delivered (push a w) = delivered w @ [a]"
  by (simp add: delivered_def push_def Let_def)

lemma delivered_pushAll: "delivered (pushAll as w) = delivered w @ as"
  by (induction as arbitrary: w) (simp_all add: delivered_push)

lemma pending_push: "length (actions w) \<le> 2000 \<Longrightarrow> length (actions (push a w)) \<le> 2000"
  by (simp add: push_def Let_def)

lemma pending_pushAll: "length (actions w) \<le> 2000 \<Longrightarrow> length (actions (pushAll as w)) \<le> 2000"
  by (induction as arbitrary: w) (simp_all add: pending_push)

lemma goal_drain: "concat (goalCalls (drainQueue w)) = delivered w"
  by (simp add: drainQueue_def delivered_def)

text \<open>
  Claim C6. Whatever actions are pushed on the queue of an account, in whatever number,
  the batches handed to \<^verbatim>\<open>goal\<close> once the queue is drained are, put end to end, the batches
  handed before followed by exactly the actions pushed, each once and in the order of the
  pushes; and after every push the array \<open>actions\<close> holds at most 2000 actions (it
  holds 2001 only inside the push that flushes it).
\<close>

theorem buffer_flushes_once:
  "concat (goalCalls (drainQueue (pushAll as (createQueue w)))) = concat (goalCalls w) @ as
   \<and> length (actions (pushAll as (createQueue w))) \<le> 2000"
proof
  have "delivered (createQueue w) = concat (goalCalls w)"
    by (simp add: delivered_def createQueue_def)
  then show "concat (goalCalls (drainQueue (pushAll as (createQueue w)))) = concat (goalCalls w) @ as"
    by (simp add: goal_drain delivered_pushAll)
  have "length (actions (createQueue w)) \<le> 2000"
    by (simp add: createQueue_def)
  then show "length (actions (pushAll as (createQueue w))) \<le> 2000"
    by (rule pending_pushAll)
qed

section \<open>Accounts, retries and the loop\<close>

subsection \<open>Accounts\<close>

lemma findAccount_less: "findAccount h as = Some i \<Longrightarrow> i < length as"
  by (induction as arbitrary: i) (auto split: if_splits)

lemma findAccount_cong: "map hubId as = map hubId bs \<Longrightarrow> findAccount h as = findAccount h bs"
proof (induction as arbitrary: bs)
  case Nil
  then show ?case by simp
next
  case (Cons a as)
  then obtain b bs' where "bs = b # bs'" by (cases bs) auto
  with Cons show ?case by auto
qed

lemma findAccount_watermarks:
  "watermarks w' = watermarks w \<Longrightarrow> findAccount h (accounts w') = findAccount h (accounts w)"
proof -
  assume "watermarks w' = watermarks w"
  then have "map fst (watermarks w') = map fst (watermarks w)" by simp
  then have "map hubId (accounts w') = map hubId (accounts w)"
    by (simp add: watermarks_def comp_def)
  then show ?thesis by (rule findAccount_cong)
qed

lemma map_update_same: "i < length xs \<Longrightarrow> f y = f (xs ! i) \<Longrightarrow> map f (xs[i := y]) = map f xs"
  by (simp add: map_update list_update_same_conv)

lemma watermarks_push [simp]: "watermarks (push a w) = watermarks w"
  by (simp add: watermarks_def push_def Let_def)

lemma watermarks_pushAll [simp]: "watermarks (pushAll as w) = watermarks w"
  by (induction as arbitrary: w) simp_all

lemma watermarks_refresh [simp]: "watermarks (snd (refreshAccessToken h r w)) = watermarks w"
  by (auto simp: refreshAccessToken_def watermarks_def map_update_same findAccount_less
      split: option.splits oauthResult.splits)

lemma watermarks_sendSearch [simp]: "watermarks (sendSearch so w) = watermarks w"
  by (simp add: sendSearch_def watermarks_def)

lemma watermarks_onFailure [simp]: "watermarks (onFailure h f w) = watermarks w"
  by (simp add: onFailure_def)

lemma watermarks_createQueue [simp]: "watermarks (createQueue w) = watermarks w"
  by (simp add: createQueue_def watermarks_def)

lemma watermarks_drainQueue [simp]: "watermarks (drainQueue w) = watermarks w"
  by (simp add: drainQueue_def watermarks_def)

subsection \<open>The retry loop\<close>

lemma fetchPage_over: "\<not> tryCount \<le> 4 \<Longrightarrow> fetchPage h so att tryCount w = (None, w)"
  by (subst fetchPage.simps) simp

lemma fetchPage_resolves:
  "tryCount \<le> 4 \<Longrightarrow> att tryCount = Resolves sr \<Longrightarrow> fetchPage h so att tryCount w = (Some sr, sendSearch so w)"
  by (subst fetchPage.simps) simp

lemma fetchPage_rejects:
  "tryCount \<le> 4 \<Longrightarrow> att tryCount = Rejects f \<Longrightarrow>
   fetchPage h so att tryCount w = fetchPage h so att (tryCount + 1) (onFailure h f (sendSearch so w))"
  by (subst fetchPage.simps) simp

lemma answer_over: "\<not> tryCount \<le> 4 \<Longrightarrow> answer att tryCount = None"
  by (subst answer.simps) simp

lemma answer_resolves: "tryCount \<le> 4 \<Longrightarrow> att tryCount = Resolves sr \<Longrightarrow> answer att tryCount = Some sr"
  by (subst answer.simps) simp

lemma answer_rejects:
  "tryCount \<le> 4 \<Longrightarrow> att tryCount = Rejects f \<Longrightarrow> answer att tryCount = answer att (tryCount + 1)"
  by (subst answer.simps) simp

lemma watermarks_fetchPage [simp]: "watermarks (snd (fetchPage h so att n w)) = watermarks w"
proof (induction h so att n w rule: fetchPage.induct)
  case (1 h so att tryCount w)
  show ?case
  proof (cases "tryCount \<le> 4")
    case False
    then show ?thesis by (simp add: fetchPage_over)
  next
    case True
    show ?thesis
    proof (cases "att tryCount")
      case (Resolves sr)
      with True show ?thesis by (simp add: fetchPage_resolves)
    next
      case (Rejects f)
      with True "1.IH"[OF True Rejects] show ?thesis by (simp add: fetchPage_rejects)
    qed
  qed
qed

lemma fst_fetchPage: "fst (fetchPage h so att n w) = answer att n"
proof (induction h so att n w rule: fetchPage.induct)
  case (1 h so att tryCount w)
  show ?case
  proof (cases "tryCount \<le> 4")
    case False
    then show ?thesis by (simp add: fetchPage_over answer_over)
  next
    case True
    show ?thesis
    proof (cases "att tryCount")
      case (Resolves sr)
      with True show ?thesis by (simp add: fetchPage_resolves answer_resolves)
    next
      case (Rejects f)
      with True "1.IH"[OF True Rejects] show ?thesis
        by (simp add: fetchPage_rejects answer_rejects)
    qed
  qed
qed

text \<open>The retry loop touches neither the queue nor the sink.\<close>

lemma queue_refresh [simp]:
  "actions (snd (refreshAccessToken h r w)) = actions w"
  "goalCalls (snd (refreshAccessToken h r w)) = goalCalls w"
  by (auto simp: refreshAccessToken_def split: option.splits oauthResult.splits)

lemma queue_onFailure [simp]:
  "actions (onFailure h f w) = actions w" "goalCalls (onFailure h f w) = goalCalls w"
  by (simp_all add: onFailure_def)

lemma queue_sendSearch [simp]:
  "actions (sendSearch so w) = actions w" "goalCalls (sendSearch so w) = goalCalls w"
  by (simp_all add: sendSearch_def)

lemma queue_fetchPage:
  "actions (snd (fetchPage h so att n w)) = actions w \<and> goalCalls (snd (fetchPage h so att n w)) = goalCalls w"
proof (induction h so att n w rule: fetchPage.induct)
  case (1 h so att tryCount w)
  show ?case
  proof (cases "tryCount \<le> 4")
    case False
    then show ?thesis by (simp add: fetchPage_over)
  next
    case True
    show ?thesis
    proof (cases "att tryCount")
      case (Resolves sr)
      with True show ?thesis by (simp add: fetchPage_resolves)
    next
      case (Rejects f)
      with True "1.IH"[OF True Rejects] show ?thesis by (simp add: fetchPage_rejects)
    qed
  qed
qed

lemma observed_fetchPage [simp]: "observed (snd (fetchPage h so att n w)) = observed w"
  by (simp add: observed_def queue_fetchPage)

lemma fetchPage_eq: "fetchPage h so att n w = (answer att n, snd (fetchPage h so att n w))"
  by (metis fst_fetchPage prod.collapse)

text \<open>The queue reads nothing but itself.\<close>

lemma observed_push: "observed w = observed w' \<Longrightarrow> observed (push a w) = observed (push a w')"
proof -
  assume "observed w = observed w'"
  then have g: "goalCalls w = goalCalls w'" and a: "actions w = actions w'"
    and m: "watermarks w = watermarks w'"
    by (simp_all add: observed_def)
  have "goalCalls (push a w) = goalCalls (push a w')" "actions (push a w) = actions (push a w')"
    by (simp_all add: push_def Let_def g a)
  moreover have "watermarks (push a w) = watermarks (push a w')"
    by (simp add: m)
  ultimately show ?thesis by (simp add: observed_def)
qed

lemma observed_pushAll: "observed w = observed w' \<Longrightarrow> observed (pushAll as w) = observed (pushAll as w')"
proof (induction as arbitrary: w w')
  case Nil
  then show ?case by simp
next
  case (Cons a as)
  from Cons.prems have "observed (push a w) = observed (push a w')" by (rule observed_push)
  then have "observed (pushAll as (push a w)) = observed (pushAll as (push a w'))" by (rule Cons.IH)
  then show ?case by (simp only: pushAll.simps)
qed


subsection \<open>One turn of the loop\<close>

lemma loopBody_aborts:
  "answer (attempts p) 0 = None \<Longrightarrow>
   loopBody k h pp lm lp now p oo w =
     Stop (Some FetchAborted) (snd (fetchPage h (makeSearchObject k oo lp now) (attempts p) 0 w))"
  by (subst loopBody_def, subst fetchPage_eq) simp

lemma loopBody_answers:
  "answer (attempts p) 0 = Some sr \<Longrightarrow>
   loopBody k h pp lm lp now p oo w =
     (let w1 = snd (fetchPage h (makeSearchObject k oo lp now) (attempts p) 0 w) in
      case pp p (sr_results sr) of
        (Some e, acts) \<Rightarrow> Stop (Some e) (pushAll acts w1)
      | (None, acts) \<Rightarrow>
          let w2 = pushAll acts w1 in
          if noAfter (sr_after sr) then Stop None w2
          else if the (sr_after sr) \<ge> 9900 then
            (case sr_results sr of
               [] \<Rightarrow> Stop (Some TypeError) w2
             | _ \<Rightarrow>
                 (case lm (last (sr_results sr)) of
                    Inl e \<Rightarrow> Stop (Some e) w2
                  | Inr d \<Rightarrow> Again \<lparr>oo_after = Some 0, oo_lastModifiedDate = Some d\<rparr> w2))
          else Again (oo\<lparr>oo_after := sr_after sr\<rparr>) w2)"
  by (subst loopBody_def, subst fetchPage_eq) (simp add: Let_def)

lemma loopBody_answers_nf:
  "answer (attempts p) 0 = Some sr \<Longrightarrow>
   loopBody k h pp lm lp now p oo w =
     (case verdict pp lm p oo sr of
        Inl e \<Rightarrow> Stop e (pushAll (snd (pp p (sr_results sr))) (fetched k h lp now p oo w))
      | Inr oo' \<Rightarrow> Again oo' (pushAll (snd (pp p (sr_results sr))) (fetched k h lp now p oo w)))"
  by (simp add: loopBody_answers verdict_def fetched_def Let_def
      split: prod.splits option.splits list.splits sum.splits)

lemma passLoop_aborts:
  "answer (attempts p) 0 = None \<Longrightarrow>
   passLoop k h pp lm lp now (p # ps) oo w = Some (Some FetchAborted, fetched k h lp now p oo w)"
  by (simp add: loopBody_aborts fetched_def)

lemma passLoop_answers:
  "answer (attempts p) 0 = Some sr \<Longrightarrow>
   passLoop k h pp lm lp now (p # ps) oo w =
     (case verdict pp lm p oo sr of
        Inl e \<Rightarrow> Some (e, pushAll (snd (pp p (sr_results sr))) (fetched k h lp now p oo w))
      | Inr oo' \<Rightarrow> passLoop k h pp lm lp now ps oo' (pushAll (snd (pp p (sr_results sr))) (fetched k h lp now p oo w)))"
  by (simp add: loopBody_answers_nf split: sum.splits)

lemma watermarks_fetched [simp]: "watermarks (fetched k h lp now p oo w) = watermarks w"
  by (simp add: fetched_def)

lemma observed_fetched [simp]: "observed (fetched k h lp now p oo w) = observed w"
  by (simp add: fetched_def)

lemma delivered_fetched [simp]: "delivered (fetched k h lp now p oo w) = delivered w"
  by (simp add: fetched_def delivered_def queue_fetchPage)

subsection \<open>The loop\<close>

declare passLoop.simps(2) [simp del]

lemma passLoop_watermarks:
  "passLoop k h pp lm lp now ps oo w = Some (e, w') \<Longrightarrow> watermarks w' = watermarks w"
proof (induction ps arbitrary: oo w)
  case Nil
  then show ?case by simp
next
  case (Cons p ps)
  show ?case
  proof (cases "answer (attempts p) 0")
    case None
    with Cons.prems show ?thesis by (auto simp: passLoop_aborts)
  next
    case (Some sr)
    show ?thesis
    proof (cases "verdict pp lm p oo sr")
      case (Inl e')
      with Some Cons.prems show ?thesis by (auto simp: passLoop_answers)
    next
      case (Inr oo')
      with Some Cons.prems have
        "passLoop k h pp lm lp now ps oo' (pushAll (snd (pp p (sr_results sr))) (fetched k h lp now p oo w)) = Some (e, w')"
        by (simp add: passLoop_answers)
      from Cons.IH[OF this] show ?thesis by simp
    qed
  qed
qed

text \<open>
  When the pages given do not reach the end of the loop, the loop goes on with whatever
  pages follow, from one state with the watermarks it started with.
\<close>

lemma passLoop_append:
  "passLoop k h pp lm lp now pre oo w = None \<Longrightarrow>
   \<exists>oo' w'. watermarks w' = watermarks w \<and>
     (\<forall>rest. passLoop k h pp lm lp now (pre @ rest) oo w = passLoop k h pp lm lp now rest oo' w')"
proof (induction pre arbitrary: oo w)
  case Nil
  show ?case by (rule exI[of _ oo], rule exI[of _ w]) simp
next
  case (Cons p pre)
  show ?case
  proof (cases "answer (attempts p) 0")
    case None
    with Cons.prems show ?thesis by (simp add: passLoop_aborts)
  next
    case (Some sr)
    show ?thesis
    proof (cases "verdict pp lm p oo sr")
      case (Inl e')
      with Some Cons.prems show ?thesis by (simp add: passLoop_answers)
    next
      case (Inr oo1)
      define w1 where "w1 = pushAll (snd (pp p (sr_results sr))) (fetched k h lp now p oo w)"
      from Some Inr Cons.prems have "passLoop k h pp lm lp now pre oo1 w1 = None"
        by (simp add: passLoop_answers w1_def)
      from Cons.IH[OF this] obtain oo' w' where
        a: "watermarks w' = watermarks w1"
        and b: "\<forall>rest. passLoop k h pp lm lp now (pre @ rest) oo1 w1 = passLoop k h pp lm lp now rest oo' w'"
        by blast
      have "watermarks w' = watermarks w" using a by (simp add: w1_def)
      moreover have "\<forall>rest. passLoop k h pp lm lp now ((p # pre) @ rest) oo w = passLoop k h pp lm lp now rest oo' w'"
        using b Some Inr by (simp add: passLoop_answers w1_def)
      ultimately show ?thesis by blast
    qed
  qed
qed


subsection \<open>A pass\<close>

lemma accounts_commit:
  "i < length (accounts w) \<Longrightarrow>
   map hubId (accounts (commit k i now w)) = map hubId (accounts w)
   \<and> watermark k (accounts (commit k i now w) ! i) = Valid now"
  by (cases k) (simp_all add: commit_def Let_def watermark_def map_update_same)

lemma committed_commit:
  assumes "findAccount h (accounts w) = Some i"
  shows "committed k h (commit k i now w) = Some (Valid now)"
proof -
  from assms have less: "i < length (accounts w)" by (rule findAccount_less)
  from accounts_commit[OF less] have
    ids: "map hubId (accounts (commit k i now w)) = map hubId (accounts w)"
    and wm: "watermark k (accounts (commit k i now w) ! i) = Valid now"
    by simp_all
  from ids have "findAccount h (accounts (commit k i now w)) = findAccount h (accounts w)"
    by (rule findAccount_cong)
  with assms wm show ?thesis by (simp add: committed_def)
qed

lemma runPass_success:
  assumes "runPass k pp lm h s w = Some (True, w')"
  shows "committed k h w' = Some (Valid (ps_now s))"
proof -
  from assms obtain i where i: "findAccount h (accounts w) = Some i"
    by (cases "findAccount h (accounts w)") (simp_all add: runPass_def)
  define lp where "lp = watermark k (accounts w ! i)"
  from assms i obtain w1 where
    loop: "passLoop k h (pp lp) lm lp (ps_now s) (ps_pages s) initialOffset w = Some (None, w1)"
    and w': "w' = commit k i (ps_now s) w1"
    by (auto simp: runPass_def Let_def lp_def split: option.splits prod.splits)
  from loop have "watermarks w1 = watermarks w" by (rule passLoop_watermarks)
  then have "findAccount h (accounts w1) = findAccount h (accounts w)"
    by (rule findAccount_watermarks)
  with i have "findAccount h (accounts w1) = Some i" by simp
  then show ?thesis unfolding w' by (rule committed_commit)
qed

lemma runPass_failure:
  assumes "runPass k pp lm h s w = Some (False, w')"
  shows "watermarks w' = watermarks w"
proof (cases "findAccount h (accounts w)")
  case None
  with assms show ?thesis by (simp add: runPass_def)
next
  case (Some i)
  define lp where "lp = watermark k (accounts w ! i)"
  from assms Some obtain e where
    "passLoop k h (pp lp) lm lp (ps_now s) (ps_pages s) initialOffset w = Some (Some e, w')"
    by (auto simp: runPass_def Let_def lp_def split: option.splits prod.splits)
  then show ?thesis by (rule passLoop_watermarks)
qed

lemma runPass_unfinished:
  assumes "runPass k pp lm h s w = None"
  obtains i where "findAccount h (accounts w) = Some i"
    and "passLoop k h (pp (watermark k (accounts w ! i))) lm (watermark k (accounts w ! i)) (ps_now s) (ps_pages s) initialOffset w = None"
  using assms
  by (cases "findAccount h (accounts w)")
     (auto simp: runPass_def Let_def split: option.splits prod.splits)

text \<open>
  A pass whose pages so far do not end the loop, followed by a page at which the loop
  stops with an error, returns false and leaves every watermark as it was.
\<close>

lemma runPass_stops:
  assumes pre: "runPass k pp lm h \<lparr>ps_now = now, ps_pages = pre\<rparr> w = None"
    and stop: "\<And>lp oo w1. \<exists>e w2. loopBody k h (pp lp) lm lp now p oo w1 = Stop (Some e) w2"
  shows "\<exists>w'. runPass k pp lm h \<lparr>ps_now = now, ps_pages = pre @ p # post\<rparr> w = Some (False, w')
              \<and> watermarks w' = watermarks w"
proof -
  from pre obtain i where i: "findAccount h (accounts w) = Some i"
    and loop: "passLoop k h (pp (watermark k (accounts w ! i))) lm (watermark k (accounts w ! i)) now pre initialOffset w = None"
    by (rule runPass_unfinished) simp
  define lp where "lp = watermark k (accounts w ! i)"
  from passLoop_append[OF loop] obtain oo1 w1 where
    "passLoop k h (pp lp) lm lp now (pre @ p # post) initialOffset w = passLoop k h (pp lp) lm lp now (p # post) oo1 w1"
    unfolding lp_def by blast
  moreover from stop obtain e w2 where "loopBody k h (pp lp) lm lp now p oo1 w1 = Stop (Some e) w2"
    by blast
  ultimately have "passLoop k h (pp lp) lm lp now (pre @ p # post) initialOffset w = Some (Some e, w2)"
    by (simp add: passLoop.simps)
  with i have r: "runPass k pp lm h \<lparr>ps_now = now, ps_pages = pre @ p # post\<rparr> w = Some (False, w2)"
    by (simp add: runPass_def Let_def lp_def)
  from runPass_failure[OF r] r show ?thesis by blast
qed

lemma answer_all_reject: "(\<And>i. n \<le> i \<Longrightarrow> i \<le> 4 \<Longrightarrow> rejects (att i)) \<Longrightarrow> answer att n = None"
proof (induction att n rule: answer.induct)
  case (1 att tryCount)
  show ?case
  proof (cases "tryCount \<le> 4")
    case False
    then show ?thesis by (rule answer_over)
  next
    case True
    with "1.prems"[of tryCount] obtain f where f: "att tryCount = Rejects f"
      by (cases "att tryCount") (simp_all add: rejects_def)
    have "answer att (tryCount + 1) = None"
      using "1.IH"[OF True f] "1.prems" by simp
    with True f show ?thesis by (simp add: answer_rejects)
  qed
qed

lemma answer_fetchFails: "fetchFails p \<Longrightarrow> answer (attempts p) 0 = None"
  by (rule answer_all_reject) (simp add: fetchFails_def list_all_iff)

lemma answer_answersAfter: "n \<le> 4 \<Longrightarrow> answersAfter n sr p \<Longrightarrow> answer (attempts p) 0 = Some sr"
proof -
  assume n: "n \<le> 4" and a: "answersAfter n sr p"
  have "m \<le> n \<Longrightarrow> answer (attempts p) (n - m) = Some sr" for m
  proof (induction m)
    case 0
    with n a show ?case by (simp add: answer_resolves answersAfter_def)
  next
    case (Suc m)
    then have less: "n - Suc m < n" by simp
    with a have "rejects (attempts p (n - Suc m))" by (simp add: answersAfter_def list_all_iff)
    then obtain f where f: "attempts p (n - Suc m) = Rejects f"
      by (cases "attempts p (n - Suc m)") (simp_all add: rejects_def)
    from less n have "n - Suc m \<le> 4" by simp
    then have "answer (attempts p) (n - Suc m) = answer (attempts p) (n - Suc m + 1)"
      using f by (rule answer_rejects[of "n - Suc m" "attempts p" f])
    moreover from Suc.prems have "n - Suc m + 1 = n - m" by simp
    ultimately show ?case using Suc by simp
  qed
  from this[of n] show ?thesis by simp
qed

lemma runPass_fetchFails:
  assumes "runPass k pp lm h \<lparr>ps_now = now, ps_pages = pre\<rparr> w = None" and "fetchFails p"
  shows "\<exists>w'. runPass k pp lm h \<lparr>ps_now = now, ps_pages = pre @ p # post\<rparr> w = Some (False, w')
              \<and> watermarks w' = watermarks w"
  using assms(1)
proof (rule runPass_stops)
  fix lp oo w1
  from assms(2) have "answer (attempts p) 0 = None" by (rule answer_fetchFails)
  then show "\<exists>e w2. loopBody k h (pp lp) lm lp now p oo w1 = Stop (Some e) w2"
    by (simp add: loopBody_aborts)
qed

text \<open>
  Claim C1. When a pass of any of the three kinds returns true, the watermark of that kind
  of the account is the \<open>now\<close> captured at the start of the pass, whatever the pages held.
\<close>

theorem watermark_is_pass_start_now:
  "(processCompanies h sc w = Some (True, w1) \<longrightarrow> committed Companies h w1 = Some (Valid (ps_now sc)))
   \<and> (processContacts h sp w = Some (True, w2) \<longrightarrow> committed Contacts h w2 = Some (Valid (ps_now sp)))
   \<and> (processMeetings h sm w = Some (True, w3) \<longrightarrow> committed Meetings h w3 = Some (Valid (ps_now sm)))"
  unfolding processCompanies_def processContacts_def processMeetings_def
  by (intro conjI impI) (erule runPass_success)+

theorem watermark_is_pass_start_now_witness:
  "fst (the (processCompanies ''hub1'' exCompaniesPass exWorld))
   \<and> committed Companies ''hub1'' (snd (the (processCompanies ''hub1'' exCompaniesPass exWorld))) = Some (Valid 5000)
   \<and> fst (the (processContacts ''hub1'' exContactsPass exWorld))
   \<and> committed Contacts ''hub1'' (snd (the (processContacts ''hub1'' exContactsPass exWorld))) = Some (Valid 6000)
   \<and> fst (the (processMeetings ''hub1'' exMeetingsPass exWorld))
   \<and> committed Meetings ''hub1'' (snd (the (processMeetings ''hub1'' exMeetingsPass exWorld))) = Some (Valid 7000)"
proof -
  have c: "processCompanies ''hub1'' exCompaniesPass exWorld
           = Some (True, snd (the (processCompanies ''hub1'' exCompaniesPass exWorld)))"
    by code_simp
  have p: "processContacts ''hub1'' exContactsPass exWorld
           = Some (True, snd (the (processContacts ''hub1'' exContactsPass exWorld)))"
    by code_simp
  have m: "processMeetings ''hub1'' exMeetingsPass exWorld
           = Some (True, snd (the (processMeetings ''hub1'' exMeetingsPass exWorld)))"
    by code_simp
  have n: "ps_now exCompaniesPass = 5000" "ps_now exContactsPass = 6000" "ps_now exMeetingsPass = 7000"
    by (simp_all add: exCompaniesPass_def exContactsPass_def exMeetingsPass_def)
  from watermark_is_pass_start_now[of "''hub1''" exCompaniesPass exWorld _ exContactsPass _ exMeetingsPass] c p m n
  show ?thesis by (metis fst_conv option.sel)
qed



text \<open>
  Claim C3. When the search of a page throws at each of its five attempts, the turn of the
  loop stops with the error "Failed to fetch", in each of the three passes; the pass
  returns false and every watermark of every account is as it was before the pass; and
  the run does not stop there: whatever the three passes of an account return, the account
  is drained and the accounts after it are processed.
\<close>

theorem fatal_fetch_keeps_watermark:
  "(fetchFails p \<longrightarrow>
      loopBody k h pp lm lp now p oo w = Stop (Some FetchAborted) (fetched k h lp now p oo w))
   \<and> (processCompanies h \<lparr>ps_now = now, ps_pages = prec\<rparr> w = None \<and> fetchFails pc \<longrightarrow>
        (\<exists>w'. processCompanies h \<lparr>ps_now = now, ps_pages = prec @ pc # postc\<rparr> w = Some (False, w')
              \<and> watermarks w' = watermarks w))
   \<and> (processContacts h \<lparr>ps_now = now, ps_pages = prep\<rparr> w = None \<and> fetchFails pp' \<longrightarrow>
        (\<exists>w'. processContacts h \<lparr>ps_now = now, ps_pages = prep @ pp' # postp\<rparr> w = Some (False, w')
              \<and> watermarks w' = watermarks w))
   \<and> (processMeetings h \<lparr>ps_now = now, ps_pages = prem\<rparr> w = None \<and> fetchFails pm \<longrightarrow>
        (\<exists>w'. processMeetings h \<lparr>ps_now = now, ps_pages = prem @ pm # postm\<rparr> w = Some (False, w')
              \<and> watermarks w' = watermarks w))
   \<and> (processContacts h (as_contacts s) (createQueue (snd (refreshAccessToken h (as_refresh s) w))) = Some (b1, w1)
        \<and> processCompanies h (as_companies s) w1 = Some (b2, w2)
        \<and> processMeetings h (as_meetings s) w2 = Some (b3, w3) \<longrightarrow>
        processAccount s h w = Some (drainQueue w3)
        \<and> pullAccounts (s # ss) (h # hs) w = pullAccounts ss hs (drainQueue w3))"
proof (intro conjI impI)
  assume "fetchFails p"
  then have "answer (attempts p) 0 = None" by (rule answer_fetchFails)
  then show "loopBody k h pp lm lp now p oo w = Stop (Some FetchAborted) (fetched k h lp now p oo w)"
    by (simp add: loopBody_aborts fetched_def)
next
  assume "processCompanies h \<lparr>ps_now = now, ps_pages = prec\<rparr> w = None \<and> fetchFails pc"
  then show "\<exists>w'. processCompanies h \<lparr>ps_now = now, ps_pages = prec @ pc # postc\<rparr> w = Some (False, w')
              \<and> watermarks w' = watermarks w"
    unfolding processCompanies_def by (blast intro: runPass_fetchFails)
next
  assume "processContacts h \<lparr>ps_now = now, ps_pages = prep\<rparr> w = None \<and> fetchFails pp'"
  then show "\<exists>w'. processContacts h \<lparr>ps_now = now, ps_pages = prep @ pp' # postp\<rparr> w = Some (False, w')
              \<and> watermarks w' = watermarks w"
    unfolding processContacts_def by (blast intro: runPass_fetchFails)
next
  assume "processMeetings h \<lparr>ps_now = now, ps_pages = prem\<rparr> w = None \<and> fetchFails pm"
  then show "\<exists>w'. processMeetings h \<lparr>ps_now = now, ps_pages = prem @ pm # postm\<rparr> w = Some (False, w')
              \<and> watermarks w' = watermarks w"
    unfolding processMeetings_def by (blast intro: runPass_fetchFails)
next
  assume a: "processContacts h (as_contacts s) (createQueue (snd (refreshAccessToken h (as_refresh s) w))) = Some (b1, w1)
        \<and> processCompanies h (as_companies s) w1 = Some (b2, w2)
        \<and> processMeetings h (as_meetings s) w2 = Some (b3, w3)"
  then show acc: "processAccount s h w = Some (drainQueue w3)"
    by (simp add: processAccount_def Let_def)
  then show "pullAccounts (s # ss) (h # hs) w = pullAccounts ss hs (drainQueue w3)"
    by simp
qed

theorem fatal_fetch_keeps_watermark_witness:
  "fetchFails (failingPage :: contact page)
   \<and> loopBody Contacts ''hub1'' (\<lambda>p. contactsPage (Valid 1000) (associations p)) (\<lambda>c. Inr (contact_updatedAt c))
         (Valid 1000) 6000 failingPage initialOffset exWorld
       = Stop (Some FetchAborted) (fetched Contacts ''hub1'' (Valid 1000) 6000 (failingPage :: contact page) initialOffset exWorld)
   \<and> map_option fst (processContacts ''hub1'' exFailingContacts exWorld) = Some False
   \<and> map_option (\<lambda>r. watermarks (snd r)) (processContacts ''hub1'' exFailingContacts exWorld) = Some (watermarks exWorld)
   \<and> map_option fst (processCompanies ''hub1'' \<lparr>ps_now = 5000, ps_pages = [failingPage]\<rparr> exWorld) = Some False
   \<and> map_option fst (processMeetings ''hub1'' \<lparr>ps_now = 7000, ps_pages = [failingPage]\<rparr> exWorld) = Some False
   \<and> map_option watermarks (processAccount exAccountScript ''hub1'' exWorld)
       = Some [(''hub1'', \<lparr>pd_companies = Valid 5000, pd_contacts = Valid 1000, pd_meetings = Valid 7000\<rparr>),
               (''hub2'', \<lparr>pd_companies = Valid 1000, pd_contacts = Valid 1000, pd_meetings = Valid 1000\<rparr>)]
   \<and> map_option watermarks (pullDataFromHubspot [exAccountScript, exGoodScript] exWorld)
       = Some [(''hub1'', \<lparr>pd_companies = Valid 5000, pd_contacts = Valid 1000, pd_meetings = Valid 7000\<rparr>),
               (''hub2'', \<lparr>pd_companies = Valid 5000, pd_contacts = Valid 6000, pd_meetings = Valid 7000\<rparr>)]"
proof -
  define w0 where "w0 = createQueue (snd (refreshAccessToken ''hub1'' (as_refresh exAccountScript) exWorld))"
  define w1 where "w1 = snd (the (processContacts ''hub1'' (as_contacts exAccountScript) w0))"
  define w2 where "w2 = snd (the (processCompanies ''hub1'' (as_companies exAccountScript) w1))"
  define w3 where "w3 = snd (the (processMeetings ''hub1'' (as_meetings exAccountScript) w2))"
  have f: "fetchFails (failingPage :: contact page)" "fetchFails (failingPage :: company page)"
    "fetchFails (failingPage :: meeting page)"
    by code_simp+
  have pre: "processContacts ''hub1''
      \<lparr>ps_now = 6000, ps_pages = [pageOf [exContact ''p1'' (Some ''ada@a.com'') 2000 3000] (Some 100)]\<rparr> exWorld = None"
    "processCompanies ''hub1'' \<lparr>ps_now = 5000, ps_pages = []\<rparr> exWorld = None"
    "processMeetings ''hub1'' \<lparr>ps_now = 7000, ps_pages = []\<rparr> exWorld = None"
    by code_simp+
  have run: "processContacts ''hub1'' (as_contacts exAccountScript) w0 = Some (False, w1)"
    "processCompanies ''hub1'' (as_companies exAccountScript) w1 = Some (True, w2)"
    "processMeetings ''hub1'' (as_meetings exAccountScript) w2 = Some (True, w3)"
    unfolding w0_def w1_def w2_def w3_def by code_simp+
  note T = fatal_fetch_keeps_watermark[where p = "failingPage :: contact page" and k = Contacts and h = "''hub1''"
      and pp = "\<lambda>p. contactsPage (Valid 1000) (associations p)" and lm = "\<lambda>c. Inr (contact_updatedAt c)"
      and lp = "Valid 1000" and oo = initialOffset and w = exWorld
      and prep = "[pageOf [exContact ''p1'' (Some ''ada@a.com'') 2000 3000] (Some 100)]"
      and pp' = failingPage and postp = "[]"
      and prec = "[]" and pc = failingPage and postc = "[]"
      and prem = "[]" and pm = failingPage and postm = "[]"
      and s = exAccountScript and ?b1.0 = False and ?w1.0 = w1 and ?b2.0 = True and ?w2.0 = w2
      and ?b3.0 = True and ?w3.0 = w3 and ss = "[exGoodScript]" and hs = "[''hub2'']"]
  have a: "loopBody Contacts ''hub1'' (\<lambda>p. contactsPage (Valid 1000) (associations p)) (\<lambda>c. Inr (contact_updatedAt c))
         (Valid 1000) 6000 failingPage initialOffset exWorld
       = Stop (Some FetchAborted) (fetched Contacts ''hub1'' (Valid 1000) 6000 (failingPage :: contact page) initialOffset exWorld)"
    using T[where now = 6000] f(1) by blast
  have b: "\<exists>w'. processContacts ''hub1'' exFailingContacts exWorld = Some (False, w') \<and> watermarks w' = watermarks exWorld"
    using T[where now = 6000] f(1) pre(1) unfolding exFailingContacts_def by blast
  have c: "\<exists>w'. processCompanies ''hub1'' \<lparr>ps_now = 5000, ps_pages = [failingPage]\<rparr> exWorld = Some (False, w')"
    using T[where now = 5000] f(2) pre(2) by auto
  have d: "\<exists>w'. processMeetings ''hub1'' \<lparr>ps_now = 7000, ps_pages = [failingPage]\<rparr> exWorld = Some (False, w')"
    using T[where now = 7000] f(3) pre(3) by auto
  have e: "processAccount exAccountScript ''hub1'' exWorld = Some (drainQueue w3)"
    "pullAccounts (exAccountScript # [exGoodScript]) (''hub1'' # [''hub2'']) exWorld
     = pullAccounts [exGoodScript] [''hub2''] (drainQueue w3)"
    using T[where now = 6000] run unfolding w0_def by blast+
  have g: "watermarks (drainQueue w3)
       = [(''hub1'', \<lparr>pd_companies = Valid 5000, pd_contacts = Valid 1000, pd_meetings = Valid 7000\<rparr>),
          (''hub2'', \<lparr>pd_companies = Valid 1000, pd_contacts = Valid 1000, pd_meetings = Valid 1000\<rparr>)]"
    unfolding w0_def w1_def w2_def w3_def by code_simp
  have i: "map_option watermarks (pullAccounts [exGoodScript] [''hub2''] (drainQueue w3))
       = Some [(''hub1'', \<lparr>pd_companies = Valid 5000, pd_contacts = Valid 1000, pd_meetings = Valid 7000\<rparr>),
               (''hub2'', \<lparr>pd_companies = Valid 5000, pd_contacts = Valid 6000, pd_meetings = Valid 7000\<rparr>)]"
    unfolding w0_def w1_def w2_def w3_def by code_simp
  have j: "map hubId (accounts exWorld) = [''hub1'', ''hub2'']"
    by (simp add: exWorld_def exAccount_def)
  from b have b': "map_option fst (processContacts ''hub1'' exFailingContacts exWorld) = Some False"
    "map_option (\<lambda>r. watermarks (snd r)) (processContacts ''hub1'' exFailingContacts exWorld) = Some (watermarks exWorld)"
    by auto
  from c have c': "map_option fst (processCompanies ''hub1'' \<lparr>ps_now = 5000, ps_pages = [failingPage]\<rparr> exWorld) = Some False"
    by auto
  from d have d': "map_option fst (processMeetings ''hub1'' \<lparr>ps_now = 7000, ps_pages = [failingPage]\<rparr> exWorld) = Some False"
    by auto
  have k: "map_option watermarks (processAccount exAccountScript ''hub1'' exWorld)
       = Some [(''hub1'', \<lparr>pd_companies = Valid 5000, pd_contacts = Valid 1000, pd_meetings = Valid 7000\<rparr>),
               (''hub2'', \<lparr>pd_companies = Valid 1000, pd_contacts = Valid 1000, pd_meetings = Valid 1000\<rparr>)]"
    by (simp only: e(1) g option.map)
  have l: "map_option watermarks (pullDataFromHubspot [exAccountScript, exGoodScript] exWorld)
       = Some [(''hub1'', \<lparr>pd_companies = Valid 5000, pd_contacts = Valid 1000, pd_meetings = Valid 7000\<rparr>),
               (''hub2'', \<lparr>pd_companies = Valid 5000, pd_contacts = Valid 6000, pd_meetings = Valid 7000\<rparr>)]"
    by (simp only: pullDataFromHubspot_def j e(2) i)
  from f(1) a b' c' d' k l show ?thesis by (intro conjI)
qed

section \<open>Pages of records\<close>


lemma meetingsForEach_present:
  "\<not> missingProperties data \<Longrightarrow> fst (meetingsForEach lp m2c emails data) = None"
  by (induction data) (auto simp: missingProperties_def Let_def split: option.splits prod.splits)



lemma contactActions_skip:
  "contactAction lp m c = None \<Longrightarrow> contactActions lp m (xs @ c # ys) = contactActions lp m (xs @ ys)"
  by (simp add: contactActions_def List.map_filter_def)

lemma contactsPage_skip:
  "(\<And>m. contactAction lp m c = None) \<Longrightarrow> contactsPage lp resp (xs @ c # ys) = contactsPage lp resp (xs @ ys)"
  by (simp add: contactsPage_def contactActions_skip split: sum.splits)



section \<open>Created or updated, and the date of an action\<close>

lemma date_minus_0 [simp]: "date_minus d 0 = d"
  by (cases d) simp_all

lemma date_gt_irrefl: "\<not> date_gt d d"
  by (cases d) simp_all

lemma companyAction_rule: "companyAction lp c = Some a \<Longrightarrow> companyRule lp c a"
  by (auto simp: companyAction_def companyRule_def classified_def Let_def split: option.splits)

lemma contactAction_rule: "contactAction lp m c = Some a \<Longrightarrow> contactRule lp c a"
  by (auto simp: contactAction_def contactRule_def classified_def Let_def split: option.splits if_splits)

lemma meetingActions_rule: "a \<in> set (meetingActions lp cids emails p) \<Longrightarrow> meetingRule lp p a"
  by (auto simp: meetingActions_def meetingRule_def classified_def Let_def)

lemma passLoop_delivered:
  "passLoop k h pp lm lp now ps oo w = Some (e, w') \<Longrightarrow>
   (\<And>p sr a. p \<in> set ps \<Longrightarrow> answer (attempts p) 0 = Some sr \<Longrightarrow> a \<in> set (snd (pp p (sr_results sr))) \<Longrightarrow> P a) \<Longrightarrow>
   \<exists>new. delivered w' = delivered w @ new \<and> (\<forall>a\<in>set new. P a)"
proof (induction ps arbitrary: oo w)
  case Nil
  then show ?case by simp
next
  case (Cons p ps)
  show ?case
  proof (cases "answer (attempts p) 0")
    case None
    with Cons.prems(1) have "w' = fetched k h lp now p oo w" by (simp add: passLoop_aborts)
    then have "delivered w' = delivered w @ []" by simp
    then show ?thesis by (intro exI[of _ "[]"]) simp
  next
    case (Some sr)
    define acts where "acts = snd (pp p (sr_results sr))"
    define w1 where "w1 = pushAll acts (fetched k h lp now p oo w)"
    have d1: "delivered w1 = delivered w @ acts" by (simp add: w1_def delivered_pushAll)
    have pa: "\<forall>a\<in>set acts. P a" using Cons.prems(2)[of p sr] Some by (simp add: acts_def)
    show ?thesis
    proof (cases "verdict pp lm p oo sr")
      case (Inl e')
      with Some Cons.prems(1) have "w' = w1" by (simp add: passLoop_answers w1_def acts_def)
      with d1 pa show ?thesis by blast
    next
      case (Inr oo')
      with Some Cons.prems(1) have "passLoop k h pp lm lp now ps oo' w1 = Some (e, w')"
        by (simp add: passLoop_answers w1_def acts_def)
      from Cons.IH[OF this] Cons.prems(2) obtain new where "delivered w' = delivered w1 @ new" "\<forall>a\<in>set new. P a"
        by (metis list.set_intros(2))
      with d1 pa have "delivered w' = delivered w @ (acts @ new) \<and> (\<forall>a\<in>set (acts @ new). P a)"
        by auto
      then show ?thesis by blast
    qed
  qed
qed

lemma delivered_commit [simp]: "delivered (commit k i now w) = delivered w"
  by (simp add: commit_def delivered_def Let_def)

lemma runPass_delivered:
  assumes "runPass k pp lm h s w = Some (b, w')"
    and "\<And>p sr a. p \<in> set (ps_pages s) \<Longrightarrow> answer (attempts p) 0 = Some sr \<Longrightarrow>
           a \<in> set (snd (pp (the (committed k h w)) p (sr_results sr))) \<Longrightarrow> P a"
  shows "\<exists>new. delivered w' = delivered w @ new \<and> (\<forall>a\<in>set new. P a)"
proof (cases "findAccount h (accounts w)")
  case None
  with assms(1) have "w' = w" by (simp add: runPass_def)
  then have "delivered w' = delivered w @ []" by simp
  then show ?thesis by (intro exI[of _ "[]"]) simp
next
  case (Some i)
  define lp where "lp = watermark k (accounts w ! i)"
  from Some have c: "the (committed k h w) = lp" by (simp add: committed_def lp_def)
  from assms(1) Some obtain e w1 where
    loop: "passLoop k h (pp lp) lm lp (ps_now s) (ps_pages s) initialOffset w = Some (e, w1)"
    and d: "delivered w' = delivered w1"
    by (auto simp: runPass_def Let_def lp_def split: option.splits prod.splits)
  from passLoop_delivered[OF loop, of P] assms(2) c d show ?thesis by simp
qed

lemma fetchedRecords_mem:
  "p \<in> set (ps_pages s) \<Longrightarrow> answer (attempts p) 0 = Some sr \<Longrightarrow> c \<in> set (sr_results sr) \<Longrightarrow>
   c \<in> set (fetchedRecords s)"
  by (force simp: fetchedRecords_def)

lemma companyActions_mem: "a \<in> set (companyActions lp d) \<Longrightarrow> \<exists>c\<in>set d. companyAction lp c = Some a"
  by (auto simp: companyActions_def List.map_filter_def)

lemma contactsPage_mem: "a \<in> set (snd (contactsPage lp resp d)) \<Longrightarrow> \<exists>m. \<exists>c\<in>set d. contactAction lp m c = Some a"
  by (auto simp: contactsPage_def contactActions_def List.map_filter_def split: sum.splits) blast

lemma meetingsForEach_mem:
  "a \<in> set (snd (meetingsForEach lp m2c emails d)) \<Longrightarrow>
   \<exists>cids. \<exists>m\<in>set d. \<exists>p. meeting_properties m = Some p \<and> a \<in> set (meetingActions lp cids emails p)"
proof (induction d)
  case Nil
  then show ?case by simp
next
  case (Cons m d)
  then show ?case
    by (cases "meeting_properties m") (auto simp: Let_def split: prod.splits)
qed

lemma meetingsPage_mem:
  "a \<in> set (snd (meetingsPage lp resp batch d)) \<Longrightarrow>
   \<exists>cids emails. \<exists>m\<in>set d. \<exists>p. meeting_properties m = Some p \<and> a \<in> set (meetingActions lp cids emails p)"
proof -
  assume "a \<in> set (snd (meetingsPage lp resp batch d))"
  then obtain m2c emails where "a \<in> set (snd (meetingsForEach lp m2c emails d))"
    by (auto simp: meetingsPage_def Let_def split: if_splits)
  from meetingsForEach_mem[OF this] show ?thesis by blast
qed

lemma processCompanies_rule:
  assumes "processCompanies h s w = Some (b, w')"
  shows "\<exists>new. delivered w' = delivered w @ new
           \<and> (\<forall>a\<in>set new. \<exists>c\<in>set (fetchedRecords s). companyRule (the (committed Companies h w)) c a)"
  using assms unfolding processCompanies_def
proof (rule runPass_delivered)
  fix p sr a
  assume "p \<in> set (ps_pages s)" "answer (attempts p) 0 = Some sr"
    and "a \<in> set (snd (companiesPage (the (committed Companies h w)) p (sr_results sr)))"
  then show "\<exists>c\<in>set (fetchedRecords s). companyRule (the (committed Companies h w)) c a"
    by (auto simp: companiesPage_def dest!: companyActions_mem intro: fetchedRecords_mem companyAction_rule)
qed

lemma processContacts_rule:
  assumes "processContacts h s w = Some (b, w')"
  shows "\<exists>new. delivered w' = delivered w @ new
           \<and> (\<forall>a\<in>set new. \<exists>c\<in>set (fetchedRecords s). contactRule (the (committed Contacts h w)) c a)"
  using assms unfolding processContacts_def
proof (rule runPass_delivered)
  fix p sr a
  assume "p \<in> set (ps_pages s)" "answer (attempts p) 0 = Some sr"
    and "a \<in> set (snd (contactsPage (the (committed Contacts h w)) (associations p) (sr_results sr)))"
  then show "\<exists>c\<in>set (fetchedRecords s). contactRule (the (committed Contacts h w)) c a"
    by (auto dest!: contactsPage_mem intro: fetchedRecords_mem contactAction_rule)
qed

lemma processMeetings_rule:
  assumes "processMeetings h s w = Some (b, w')"
  shows "\<exists>new. delivered w' = delivered w @ new
           \<and> (\<forall>a\<in>set new. \<exists>m\<in>set (fetchedRecords s). \<exists>p. meeting_properties m = Some p
                  \<and> meetingRule (the (committed Meetings h w)) p a)"
  using assms unfolding processMeetings_def
proof (rule runPass_delivered)
  fix p sr a
  assume "p \<in> set (ps_pages s)" "answer (attempts p) 0 = Some sr"
    and "a \<in> set (snd (meetingsPage (the (committed Meetings h w)) (associations p) (contactsBatch p) (sr_results sr)))"
  then show "\<exists>m\<in>set (fetchedRecords s). \<exists>p. meeting_properties m = Some p
                  \<and> meetingRule (the (committed Meetings h w)) p a"
    by (auto dest!: meetingsPage_mem intro: fetchedRecords_mem meetingActions_rule)
qed

text \<open>
  Claim C2, as the code has it. Every action a pass pushes comes from a record its searches
  fetched and is classified against the watermark the account had when the pass started:
  "created" exactly when the creation time of the record is strictly after that watermark
  (equal times give "updated"). The date of the action of a contact is its createdAt when
  created and its updatedAt when updated; that of a meeting is its hs_createdate or its
  hs_lastmodifieddate; that of a company is its createdAt or its updatedAt less 2000
  milliseconds.
\<close>

theorem classification_and_action_date:
  "(companyAction lp c = Some a \<longrightarrow> companyRule lp c a)
   \<and> (contactAction lp m ct = Some a' \<longrightarrow> contactRule lp ct a')
   \<and> (a'' \<in> set (meetingActions lp cids emails p) \<longrightarrow> meetingRule lp p a'')
   \<and> (processCompanies h sc w = Some (b1, w1) \<longrightarrow>
        (\<exists>new. delivered w1 = delivered w @ new
           \<and> (\<forall>x\<in>set new. \<exists>r\<in>set (fetchedRecords sc). companyRule (the (committed Companies h w)) r x)))
   \<and> (processContacts h sp w = Some (b2, w2) \<longrightarrow>
        (\<exists>new. delivered w2 = delivered w @ new
           \<and> (\<forall>x\<in>set new. \<exists>r\<in>set (fetchedRecords sp). contactRule (the (committed Contacts h w)) r x)))
   \<and> (processMeetings h sm w = Some (b3, w3) \<longrightarrow>
        (\<exists>new. delivered w3 = delivered w @ new
           \<and> (\<forall>x\<in>set new. \<exists>r\<in>set (fetchedRecords sm). \<exists>q. meeting_properties r = Some q
                  \<and> meetingRule (the (committed Meetings h w)) q x)))
   \<and> \<not> date_gt createdAt createdAt
   \<and> date_minus createdAt 0 = createdAt"
  by (intro conjI impI companyAction_rule contactAction_rule meetingActions_rule
      processCompanies_rule processContacts_rule processMeetings_rule date_gt_irrefl date_minus_0)

theorem classification_and_action_date_witness:
  "companyRule (Valid 1000) (exCompany ''c1'' 2000 3000) (the (companyAction (Valid 1000) (exCompany ''c1'' 2000 3000)))
   \<and> contactRule (Valid 1000) (exContact ''p1'' (Some ''ada@a.com'') 1000 3000)
        (the (contactAction (Valid 1000) (\<lambda>_. None) (exContact ''p1'' (Some ''ada@a.com'') 1000 3000)))
   \<and> actionName (the (contactAction (Valid 1000) (\<lambda>_. None) (exContact ''p1'' (Some ''ada@a.com'') 1000 3000)))
        = ''Contact Updated''
   \<and> meetingRule (Valid 1000) exMeetingProps
        (hd (meetingActions (Valid 1000) [''p1''] (\<lambda>_. Some ''ada@a.com'') exMeetingProps))
   \<and> (\<exists>new. delivered (snd (the (processCompanies ''hub1'' exCompaniesPass exWorld))) = delivered exWorld @ new
         \<and> (\<forall>x\<in>set new. \<exists>r\<in>set (fetchedRecords exCompaniesPass). companyRule (the (committed Companies ''hub1'' exWorld)) r x))
   \<and> map actionName (delivered (snd (the (processCompanies ''hub1'' exCompaniesPass exWorld))))
        = [''Company Created'', ''Company Updated'']
   \<and> (\<exists>new. delivered (snd (the (processContacts ''hub1'' exContactsPass exWorld))) = delivered exWorld @ new
         \<and> (\<forall>x\<in>set new. \<exists>r\<in>set (fetchedRecords exContactsPass). contactRule (the (committed Contacts ''hub1'' exWorld)) r x))
   \<and> (\<exists>new. delivered (snd (the (processMeetings ''hub1'' exMeetingsPass exWorld))) = delivered exWorld @ new
         \<and> (\<forall>x\<in>set new. \<exists>r\<in>set (fetchedRecords exMeetingsPass). \<exists>q. meeting_properties r = Some q
                \<and> meetingRule (the (committed Meetings ''hub1'' exWorld)) q x))"
proof -
  note T = classification_and_action_date[where lp = "Valid 1000" and c = "exCompany ''c1'' 2000 3000"
      and a = "the (companyAction (Valid 1000) (exCompany ''c1'' 2000 3000))"
      and m = "\<lambda>_. None" and ct = "exContact ''p1'' (Some ''ada@a.com'') 1000 3000"
      and a' = "the (contactAction (Valid 1000) (\<lambda>_. None) (exContact ''p1'' (Some ''ada@a.com'') 1000 3000))"
      and cids = "[''p1'']" and emails = "\<lambda>_. Some ''ada@a.com''" and p = exMeetingProps
      and a'' = "hd (meetingActions (Valid 1000) [''p1''] (\<lambda>_. Some ''ada@a.com'') exMeetingProps)"
      and h = "''hub1''" and w = exWorld and sc = exCompaniesPass and sp = exContactsPass and sm = exMeetingsPass
      and ?b1.0 = True and ?b2.0 = True and ?b3.0 = True
      and ?w1.0 = "snd (the (processCompanies ''hub1'' exCompaniesPass exWorld))"
      and ?w2.0 = "snd (the (processContacts ''hub1'' exContactsPass exWorld))"
      and ?w3.0 = "snd (the (processMeetings ''hub1'' exMeetingsPass exWorld))"]
  have h1: "companyAction (Valid 1000) (exCompany ''c1'' 2000 3000)
      = Some (the (companyAction (Valid 1000) (exCompany ''c1'' 2000 3000)))"
    by code_simp
  have h2: "contactAction (Valid 1000) (\<lambda>_. None) (exContact ''p1'' (Some ''ada@a.com'') 1000 3000)
      = Some (the (contactAction (Valid 1000) (\<lambda>_. None) (exContact ''p1'' (Some ''ada@a.com'') 1000 3000)))"
    by code_simp
  have h3: "hd (meetingActions (Valid 1000) [''p1''] (\<lambda>_. Some ''ada@a.com'') exMeetingProps)
      \<in> set (meetingActions (Valid 1000) [''p1''] (\<lambda>_. Some ''ada@a.com'') exMeetingProps)"
    by (simp add: meetingActions_def truthy_def Let_def)
  have h4: "processCompanies ''hub1'' exCompaniesPass exWorld
           = Some (True, snd (the (processCompanies ''hub1'' exCompaniesPass exWorld)))"
    "processContacts ''hub1'' exContactsPass exWorld
           = Some (True, snd (the (processContacts ''hub1'' exContactsPass exWorld)))"
    "processMeetings ''hub1'' exMeetingsPass exWorld
           = Some (True, snd (the (processMeetings ''hub1'' exMeetingsPass exWorld)))"
    by code_simp+
  have n1: "actionName (the (contactAction (Valid 1000) (\<lambda>_. None) (exContact ''p1'' (Some ''ada@a.com'') 1000 3000)))
        = ''Contact Updated''"
    by code_simp
  have n2: "map actionName (delivered (snd (the (processCompanies ''hub1'' exCompaniesPass exWorld))))
        = [''Company Created'', ''Company Updated'']"
    by code_simp
  from T h1 h2 h3 h4 n1 n2 show ?thesis by blast
qed

text \<open>
  The claim as written fails for companies: a company created after the watermark, at time
  2000, gets an action dated 0, which is its createdAt less 2000 milliseconds.
\<close>

theorem action_date_counterexample:
  "date_gt (company_createdAt (exCompany ''c1'' 2000 3000)) (Valid 1000)
   \<and> map_option actionName (companyAction (Valid 1000) (exCompany ''c1'' 2000 3000)) = Some ''Company Created''
   \<and> map_option actionDate (companyAction (Valid 1000) (exCompany ''c1'' 2000 3000)) = Some (Valid 0)
   \<and> map_option actionDate (companyAction (Valid 1000) (exCompany ''c1'' 2000 3000))
       \<noteq> Some (company_createdAt (exCompany ''c1'' 2000 3000))
   \<and> map actionDate (delivered (snd (the (processCompanies ''hub1'' exCompaniesPass exWorld)))) = [Valid 0, Valid 1000]"
  by code_simp

text \<open>
  Claim C7, as the code has it. The 2000 milliseconds are taken off the date of every
  company action, created or updated; the actions of contacts and of meetings carry the
  time of their record as it is.
\<close>

theorem offset_on_company_actions:
  "(companyAction lp c = Some a \<longrightarrow>
      actionDate a = date_minus (if date_gt (company_createdAt c) lp then company_createdAt c else company_updatedAt c) 2000)
   \<and> (contactAction lp m ct = Some a' \<longrightarrow>
      actionDate a' = (if date_gt (contact_createdAt ct) lp then contact_createdAt ct else contact_updatedAt ct))
   \<and> (a'' \<in> set (meetingActions lp cids emails p) \<longrightarrow>
      actionDate a'' = (if date_gt (hs_createdate p) lp then hs_createdate p else hs_lastmodifieddate p))"
proof (intro conjI impI)
  assume "companyAction lp c = Some a"
  then have "companyRule lp c a" by (rule companyAction_rule)
  then show "actionDate a = date_minus (if date_gt (company_createdAt c) lp then company_createdAt c else company_updatedAt c) 2000"
    by (simp add: companyRule_def classified_def split: if_splits)
next
  assume "contactAction lp m ct = Some a'"
  then have "contactRule lp ct a'" by (rule contactAction_rule)
  then show "actionDate a' = (if date_gt (contact_createdAt ct) lp then contact_createdAt ct else contact_updatedAt ct)"
    by (simp add: contactRule_def classified_def split: if_splits)
next
  assume "a'' \<in> set (meetingActions lp cids emails p)"
  then have "meetingRule lp p a''" by (rule meetingActions_rule)
  then show "actionDate a'' = (if date_gt (hs_createdate p) lp then hs_createdate p else hs_lastmodifieddate p)"
    by (simp add: meetingRule_def classified_def split: if_splits)
qed

theorem offset_on_company_actions_witness:
  "actionDate (the (companyAction (Valid 1000) (exCompany ''c2'' 500 3000))) = Valid 1000
   \<and> actionDate (the (companyAction (Valid 1000) (exCompany ''c1'' 2000 3000))) = Valid 0
   \<and> actionDate (the (contactAction (Valid 1000) (\<lambda>_. None) (exContact ''p1'' (Some ''ada@a.com'') 2000 3000))) = Valid 2000
   \<and> actionDate (hd (meetingActions (Valid 1000) [''p1''] (\<lambda>_. Some ''ada@a.com'') exMeetingProps)) = Valid 2000"
proof -
  have h1: "companyAction (Valid 1000) (exCompany ''c2'' 500 3000)
      = Some (the (companyAction (Valid 1000) (exCompany ''c2'' 500 3000)))"
    "companyAction (Valid 1000) (exCompany ''c1'' 2000 3000)
      = Some (the (companyAction (Valid 1000) (exCompany ''c1'' 2000 3000)))"
    by code_simp+
  have h2: "contactAction (Valid 1000) (\<lambda>_. None) (exContact ''p1'' (Some ''ada@a.com'') 2000 3000)
      = Some (the (contactAction (Valid 1000) (\<lambda>_. None) (exContact ''p1'' (Some ''ada@a.com'') 2000 3000)))"
    by code_simp
  have h3: "hd (meetingActions (Valid 1000) [''p1''] (\<lambda>_. Some ''ada@a.com'') exMeetingProps)
      \<in> set (meetingActions (Valid 1000) [''p1''] (\<lambda>_. Some ''ada@a.com'') exMeetingProps)"
    by (simp add: meetingActions_def truthy_def Let_def)
  have d: "company_createdAt (exCompany ''c2'' 500 3000) = Valid 500" "company_updatedAt (exCompany ''c2'' 500 3000) = Valid 3000"
    "company_createdAt (exCompany ''c1'' 2000 3000) = Valid 2000"
    "contact_createdAt (exContact ''p1'' (Some ''ada@a.com'') 2000 3000) = Valid 2000"
    "hs_createdate exMeetingProps = Valid 2000"
    by (simp_all add: exCompany_def exContact_def exMeetingProps_def)
  from offset_on_company_actions[of "Valid 1000" "exCompany ''c2'' 500 3000" _ "\<lambda>_. None"
      "exContact ''p1'' (Some ''ada@a.com'') 2000 3000" _ _ "[''p1'']" "\<lambda>_. Some ''ada@a.com''" exMeetingProps] h1(1) h2 h3 d
  have a: "actionDate (the (companyAction (Valid 1000) (exCompany ''c2'' 500 3000))) = Valid 1000"
    "actionDate (the (contactAction (Valid 1000) (\<lambda>_. None) (exContact ''p1'' (Some ''ada@a.com'') 2000 3000))) = Valid 2000"
    "actionDate (hd (meetingActions (Valid 1000) [''p1''] (\<lambda>_. Some ''ada@a.com'') exMeetingProps)) = Valid 2000"
    by simp_all
  from offset_on_company_actions[of "Valid 1000" "exCompany ''c1'' 2000 3000"] h1(2) d
  have b: "actionDate (the (companyAction (Valid 1000) (exCompany ''c1'' 2000 3000))) = Valid 0"
    by simp
  from a b show ?thesis by simp
qed

text \<open>
  The claim as written fails for updated companies: a company created before the watermark
  and modified at time 3000 gets an action "Company Updated" dated 1000.
\<close>

theorem offset_counterexample:
  "map_option actionName (companyAction (Valid 1000) (exCompany ''c2'' 500 3000)) = Some ''Company Updated''
   \<and> company_updatedAt (exCompany ''c2'' 500 3000) = Valid 3000
   \<and> map_option actionDate (companyAction (Valid 1000) (exCompany ''c2'' 500 3000)) = Some (Valid 1000)
   \<and> map_option actionDate (companyAction (Valid 1000) (exCompany ''c2'' 500 3000))
       \<noteq> Some (company_updatedAt (exCompany ''c2'' 500 3000))"
  by code_simp

section \<open>Records without an identity\<close>

lemma noEmail_None: "noEmail c \<Longrightarrow> contactAction lp m c = None"
  by (auto simp: noEmail_def contactAction_def split: option.splits)

lemma meetingActions_none:
  "list_all (\<lambda>cid. \<not> truthy (emails cid)) cids \<Longrightarrow> meetingActions lp cids emails p = []"
  by (simp add: meetingActions_def Let_def list_all_iff filter_empty_conv)

lemma meetingsForEach_silent:
  "noIdentity m2c emails m \<Longrightarrow> snd (meetingsForEach lp m2c emails [m]) = []"
  by (cases "meeting_properties m") (simp_all add: noIdentity_def meetingActions_none Let_def)

lemma meetingsForEach_skip:
  "meeting_properties m = Some p \<Longrightarrow> noIdentity m2c emails m \<Longrightarrow>
   meetingsForEach lp m2c emails (xs @ m # ys) = meetingsForEach lp m2c emails (xs @ ys)"
proof (induction xs)
  case Nil
  then show ?case
    by (simp add: noIdentity_def attendees_def meetingActions_none Let_def split: prod.splits)
next
  case (Cons x xs)
  then show ?case by (simp add: Let_def split: option.splits prod.splits)
qed

text \<open>
  What holds of records without an identity. A contact whose email is missing gives no
  action, and the page of contacts is processed as if the record were not there. A meeting
  none of whose contacts resolves to an email gives no action; when it has its properties
  object it gives no error either, and the meetings of the page are processed as if the
  record were not there.
\<close>

lemma records_without_identity_skipped:
  "(noEmail c \<longrightarrow>
      contactAction lp m c = None
      \<and> contactsPage lp resp (xs @ c # ys) = contactsPage lp resp (xs @ ys))
   \<and> (noIdentity m2c emails mt \<longrightarrow> snd (meetingsForEach lp m2c emails [mt]) = [])
   \<and> (meeting_properties mt = Some p \<and> noIdentity m2c emails mt \<longrightarrow>
      meetingsForEach lp m2c emails [mt] = (None, [])
      \<and> meetingsForEach lp m2c emails (xs' @ mt # ys') = meetingsForEach lp m2c emails (xs' @ ys'))"
proof (intro conjI impI)
  assume "noIdentity m2c emails mt"
  then show "snd (meetingsForEach lp m2c emails [mt]) = []" by (rule meetingsForEach_silent)
next
  assume n: "noEmail c"
  then show "contactAction lp m c = None" by (rule noEmail_None)
  from n have "\<And>m. contactAction lp m c = None" by (rule noEmail_None)
  then show "contactsPage lp resp (xs @ c # ys) = contactsPage lp resp (xs @ ys)"
    by (rule contactsPage_skip)
next
  assume a: "meeting_properties mt = Some p \<and> noIdentity m2c emails mt"
  then have "meetingsForEach lp m2c emails ([] @ mt # []) = meetingsForEach lp m2c emails ([] @ [])"
    by (intro meetingsForEach_skip) simp_all
  then show "meetingsForEach lp m2c emails [mt] = (None, [])" by simp
  from a show "meetingsForEach lp m2c emails (xs' @ mt # ys') = meetingsForEach lp m2c emails (xs' @ ys')"
    by (intro meetingsForEach_skip) simp_all
qed

lemma records_without_identity_skipped_example:
  "noEmail (exContact ''p2'' None 2000 3000)
   \<and> contactAction (Valid 1000) (\<lambda>_. None) (exContact ''p2'' None 2000 3000) = None
   \<and> contactsPage (Valid 1000) (Body []) ([exContact ''p1'' (Some ''ada@a.com'') 2000 3000] @ exContact ''p2'' None 2000 3000 # [])
       = contactsPage (Valid 1000) (Body []) ([exContact ''p1'' (Some ''ada@a.com'') 2000 3000] @ [])
   \<and> noIdentity (meetingToContactsMap [exAssoc ''m1'' [''p1''], exAssoc ''m2'' [''p2'']])
        (contactIdToEmail (Body [\<lparr>bc_id = ''p1'', bc_email = Some (Some ''ada@a.com'')\<rparr>, \<lparr>bc_id = ''p2'', bc_email = Some None\<rparr>]))
        (exMeeting ''m2'' 2000 3000)
   \<and> meetingsForEach (Valid 1000) (meetingToContactsMap [exAssoc ''m1'' [''p1''], exAssoc ''m2'' [''p2'']])
        (contactIdToEmail (Body [\<lparr>bc_id = ''p1'', bc_email = Some (Some ''ada@a.com'')\<rparr>, \<lparr>bc_id = ''p2'', bc_email = Some None\<rparr>]))
        [exMeeting ''m2'' 2000 3000] = (None, [])
   \<and> meetingsForEach (Valid 1000) (meetingToContactsMap [exAssoc ''m1'' [''p1''], exAssoc ''m2'' [''p2'']])
        (contactIdToEmail (Body [\<lparr>bc_id = ''p1'', bc_email = Some (Some ''ada@a.com'')\<rparr>, \<lparr>bc_id = ''p2'', bc_email = Some None\<rparr>]))
        ([exMeeting ''m1'' 2000 3000] @ exMeeting ''m2'' 2000 3000 # [])
      = meetingsForEach (Valid 1000) (meetingToContactsMap [exAssoc ''m1'' [''p1''], exAssoc ''m2'' [''p2'']])
        (contactIdToEmail (Body [\<lparr>bc_id = ''p1'', bc_email = Some (Some ''ada@a.com'')\<rparr>, \<lparr>bc_id = ''p2'', bc_email = Some None\<rparr>]))
        ([exMeeting ''m1'' 2000 3000] @ [])
   \<and> length (snd (meetingsForEach (Valid 1000) (meetingToContactsMap [exAssoc ''m1'' [''p1''], exAssoc ''m2'' [''p2'']])
        (contactIdToEmail (Body [\<lparr>bc_id = ''p1'', bc_email = Some (Some ''ada@a.com'')\<rparr>, \<lparr>bc_id = ''p2'', bc_email = Some None\<rparr>]))
        ([exMeeting ''m1'' 2000 3000] @ exMeeting ''m2'' 2000 3000 # []))) = 1"
proof -
  define m2c where "m2c = meetingToContactsMap [exAssoc ''m1'' [''p1''], exAssoc ''m2'' [''p2'']]"
  define emails where "emails = contactIdToEmail (Body [\<lparr>bc_id = ''p1'', bc_email = Some (Some ''ada@a.com'')\<rparr>, \<lparr>bc_id = ''p2'', bc_email = Some None\<rparr>])"
  have n: "noEmail (exContact ''p2'' None 2000 3000)" by code_simp
  have i: "noIdentity m2c emails (exMeeting ''m2'' 2000 3000)" unfolding m2c_def emails_def by code_simp
  have p: "meeting_properties (exMeeting ''m2'' 2000 3000) = Some exMeetingProps"
    by (simp add: exMeeting_def exMeetingProps_def)
  have l: "length (snd (meetingsForEach (Valid 1000) m2c emails ([exMeeting ''m1'' 2000 3000] @ exMeeting ''m2'' 2000 3000 # []))) = 1"
    unfolding m2c_def emails_def by code_simp
  from records_without_identity_skipped[where c = "exContact ''p2'' None 2000 3000" and lp = "Valid 1000"
      and m = "\<lambda>_. None" and resp = "Body []" and xs = "[exContact ''p1'' (Some ''ada@a.com'') 2000 3000]"
      and ys = "[]" and mt = "exMeeting ''m2'' 2000 3000" and p = exMeetingProps
      and ?m2c.0 = m2c and emails = emails and xs' = "[exMeeting ''m1'' 2000 3000]" and ys' = "[]"] n i p l
  show ?thesis unfolding m2c_def emails_def by blast
qed

text \<open>
  Claim C9 fails on the code for a meeting that has no properties object. With no contact
  that resolves to an email such a meeting has no usable identity, and the claim has it
  skipped without an error; but \<^verbatim>\<open>meeting.properties.hs_createdate\<close> is read before
  anything else and throws: the page stops there (a meeting after it, with an attendee,
  gives no action), the meetings pass returns false and the watermark stays where it was.
  A contact without a properties object is skipped by the guard of its pass, which goes on
  and returns true.
\<close>

theorem meeting_without_identity_throws:
  "noIdentity (meetingToContactsMap []) (contactIdToEmail (Body [])) bareMeeting
   \<and> meetingsForEach (Valid 1000) (meetingToContactsMap []) (contactIdToEmail (Body [])) [bareMeeting]
       = (Some TypeError, [])
   \<and> meetingsPage (Valid 1000) (Body []) (Body []) [bareMeeting] = (Some TypeError, [])
   \<and> meetingsPage (Valid 1000) (Body [exAssoc ''m1'' [''p1'']])
        (Body [\<lparr>bc_id = ''p1'', bc_email = Some (Some ''ada@a.com'')\<rparr>])
        [bareMeeting, exMeeting ''m1'' 2000 3000] = (Some TypeError, [])
   \<and> length (snd (meetingsPage (Valid 1000) (Body [exAssoc ''m1'' [''p1'']])
        (Body [\<lparr>bc_id = ''p1'', bc_email = Some (Some ''ada@a.com'')\<rparr>])
        [exMeeting ''m1'' 2000 3000])) = 1
   \<and> map_option fst (processMeetings ''hub1'' \<lparr>ps_now = 7000, ps_pages = [pageOf [bareMeeting] None]\<rparr> exWorld)
       = Some False
   \<and> committed Meetings ''hub1''
        (snd (the (processMeetings ''hub1'' \<lparr>ps_now = 7000, ps_pages = [pageOf [bareMeeting] None]\<rparr> exWorld)))
       = Some (Valid 1000)
   \<and> noEmail bareContact
   \<and> contactsPage (Valid 1000) (Body []) [bareContact] = (None, [])
   \<and> map_option fst (processContacts ''hub1'' \<lparr>ps_now = 6000, ps_pages = [pageOf [bareContact] None]\<rparr> exWorld)
       = Some True
   \<and> committed Contacts ''hub1''
        (snd (the (processContacts ''hub1'' \<lparr>ps_now = 6000, ps_pages = [pageOf [bareContact] None]\<rparr> exWorld)))
       = Some (Valid 6000)"
  by code_simp

section \<open>A failing association lookup\<close>

lemma fromEntries_Nil [simp]: "fromEntries [] = (\<lambda>_. None)"
  by (rule ext) (simp add: fromEntries_def)

lemma contactsPage_degraded:
  "resp = Throws \<or> resp = BadBody \<or> resp = Body [] \<Longrightarrow>
   contactsPage lp resp data = (None, contactActions lp (\<lambda>_. None) data)"
  by (auto simp: contactsPage_def companyAssociationsResults_def)

lemma contactAction_unlinked:
  "\<not> noEmail c \<Longrightarrow>
   \<exists>a. contactAction lp (\<lambda>_. None) c = Some a \<and> identity a = email (the (contact_properties c)) \<and> \<not> linked a"
  by (auto simp: noEmail_def contactAction_def linked_def filterNullValuesFromObject_def jstr_def Let_def
      split: option.splits)

lemma contactActions_unlinked:
  "map identity (contactActions lp (\<lambda>_. None) data)
     = map (\<lambda>c. email (the (contact_properties c))) (filter (\<lambda>c. \<not> noEmail c) data)
   \<and> list_all (\<lambda>a. \<not> linked a) (contactActions lp (\<lambda>_. None) data)"
proof (induction data)
  case Nil
  show ?case by (simp add: contactActions_def List.map_filter_simps)
next
  case (Cons c data)
  show ?case
  proof (cases "noEmail c")
    case True
    then have "contactAction lp (\<lambda>_. None) c = None" by (rule noEmail_None)
    with True Cons show ?thesis by (simp add: contactActions_def List.map_filter_simps)
  next
    case False
    from contactAction_unlinked[OF this, of lp] obtain a where
      "contactAction lp (\<lambda>_. None) c = Some a" "identity a = email (the (contact_properties c))" "\<not> linked a"
      by blast
    with False Cons show ?thesis by (simp add: contactActions_def List.map_filter_simps)
  qed
qed

lemma meetingsForEach_no_emails:
  "meetingsForEach lp m2c (\<lambda>_. None) data = (if missingProperties data then Some TypeError else None, [])"
proof (induction data)
  case Nil
  show ?case by (simp add: missingProperties_def)
next
  case (Cons m data)
  have "\<And>cids p. meetingActions lp cids (\<lambda>_. None) p = []"
    by (simp add: meetingActions_def truthy_def Let_def)
  with Cons show ?case
    by (cases "meeting_properties m") (simp_all add: missingProperties_def Let_def)
qed

lemma meetingsPage_no_lookup:
  "resp = Throws \<or> resp = Body [] \<Longrightarrow>
   meetingsPage lp resp batch data = (if missingProperties data then Some TypeError else None, [])"
  by (auto simp: meetingsPage_def meetingToContactsMap_def uniqueContactIds_def allContactIds_def
      meetingsForEach_no_emails missingProperties_def Let_def)

lemma contactIdToEmail_none: "batch = Throws \<or> batch = Body [] \<Longrightarrow> contactIdToEmail batch = (\<lambda>_. None)"
  by (auto simp: contactIdToEmail_def)

lemma meetingsPage_no_batch:
  assumes "batch = Throws \<or> batch = Body []"
  shows "meetingsPage lp resp batch data
     = (if data \<noteq> [] \<and> resp = BadBody then (Some JsonError, [])
        else (if missingProperties data then Some TypeError else None, []))"
proof -
  from assms have "contactIdToEmail batch = (\<lambda>_. None)" by (rule contactIdToEmail_none)
  then show ?thesis by (simp add: meetingsPage_def Let_def meetingsForEach_no_emails missingProperties_def)
qed

text \<open>
  What holds when a lookup call throws. When the association lookup of a page of contacts
  throws (or its body cannot be read), the page is processed as with an empty list of
  associations: no error, every contact with an email gives its action, in order, and no
  action names a company. When the association lookup of a page of meetings throws, or the
  batch read of the emails throws, the page is processed as with an empty answer: it
  pushes no action, and it throws only what it would throw anyway (a meeting without
  properties, or an unreadable body of the lookup).
\<close>

lemma lookup_failure_degrades:
  "contactsPage lp Throws data = contactsPage lp (Body []) data
   \<and> contactsPage lp BadBody data = contactsPage lp (Body []) data
   \<and> contactsPage lp Throws data = (None, contactActions lp (\<lambda>_. None) data)
   \<and> map identity (contactActions lp (\<lambda>_. None) data)
       = map (\<lambda>c. email (the (contact_properties c))) (filter (\<lambda>c. \<not> noEmail c) data)
   \<and> list_all (\<lambda>a. \<not> linked a) (contactActions lp (\<lambda>_. None) data)
   \<and> meetingsPage lp Throws batch ms = meetingsPage lp (Body []) batch ms
   \<and> meetingsPage lp Throws batch ms = (if missingProperties ms then Some TypeError else None, [])
   \<and> meetingsPage lp resp Throws ms = meetingsPage lp resp (Body []) ms
   \<and> snd (meetingsPage lp resp Throws ms) = []
   \<and> fst (meetingsPage lp resp Throws ms)
       = (if ms \<noteq> [] \<and> resp = BadBody then Some JsonError
          else if missingProperties ms then Some TypeError else None)"
  by (simp add: contactsPage_degraded contactActions_unlinked meetingsPage_no_lookup meetingsPage_no_batch)

lemma lookup_failure_degrades_example:
  "contactsPage (Valid 1000) Throws [exContact ''p1'' (Some ''ada@a.com'') 2000 3000, exContact ''p2'' None 2000 3000,
       exContact ''p3'' (Some ''bob@b.com'') 500 3000]
     = contactsPage (Valid 1000) (Body []) [exContact ''p1'' (Some ''ada@a.com'') 2000 3000, exContact ''p2'' None 2000 3000,
       exContact ''p3'' (Some ''bob@b.com'') 500 3000]
   \<and> map identity (snd (contactsPage (Valid 1000) Throws [exContact ''p1'' (Some ''ada@a.com'') 2000 3000,
       exContact ''p2'' None 2000 3000, exContact ''p3'' (Some ''bob@b.com'') 500 3000]))
     = [Some ''ada@a.com'', Some ''bob@b.com'']
   \<and> list_all (\<lambda>a. \<not> linked a) (snd (contactsPage (Valid 1000) Throws [exContact ''p1'' (Some ''ada@a.com'') 2000 3000,
       exContact ''p2'' None 2000 3000, exContact ''p3'' (Some ''bob@b.com'') 500 3000]))
   \<and> list_all linked (snd (contactsPage (Valid 1000) (Body [exAssoc ''p1'' [''c1'']])
       [exContact ''p1'' (Some ''ada@a.com'') 2000 3000]))
   \<and> meetingsPage (Valid 1000) Throws (Body []) [exMeeting ''m1'' 2000 3000, exMeeting ''m2'' 2000 3000] = (None, [])
   \<and> meetingsPage (Valid 1000) (Body [exAssoc ''m1'' [''p1'']]) Throws [exMeeting ''m1'' 2000 3000, exMeeting ''m2'' 2000 3000]
       = (None, [])
   \<and> length (snd (meetingsPage (Valid 1000) (Body [exAssoc ''m1'' [''p1'']])
        (Body [\<lparr>bc_id = ''p1'', bc_email = Some (Some ''ada@a.com'')\<rparr>])
        [exMeeting ''m1'' 2000 3000, exMeeting ''m2'' 2000 3000])) = 1"
proof -
  define data where "data = [exContact ''p1'' (Some ''ada@a.com'') 2000 3000, exContact ''p2'' None 2000 3000,
       exContact ''p3'' (Some ''bob@b.com'') 500 3000]"
  define ms where "ms = [exMeeting ''m1'' 2000 3000, exMeeting ''m2'' 2000 3000]"
  note T = lookup_failure_degrades[of "Valid 1000" data "Body []" ms "Body [exAssoc ''m1'' [''p1'']]"]
  have e: "map (\<lambda>c. email (the (contact_properties c))) (filter (\<lambda>c. \<not> noEmail c) data)
      = [Some ''ada@a.com'', Some ''bob@b.com'']"
    unfolding data_def by code_simp
  have m: "\<not> missingProperties ms" unfolding ms_def by code_simp
  have l: "list_all linked (snd (contactsPage (Valid 1000) (Body [exAssoc ''p1'' [''c1'']])
       [exContact ''p1'' (Some ''ada@a.com'') 2000 3000]))"
    by code_simp
  have n: "length (snd (meetingsPage (Valid 1000) (Body [exAssoc ''m1'' [''p1'']])
        (Body [\<lparr>bc_id = ''p1'', bc_email = Some (Some ''ada@a.com'')\<rparr>]) ms)) = 1"
    unfolding ms_def by code_simp
  note t1 = T[THEN conjunct1]
  note t3 = T[THEN conjunct2, THEN conjunct2, THEN conjunct1]
  note t4 = T[THEN conjunct2, THEN conjunct2, THEN conjunct2, THEN conjunct1]
  note t5 = T[THEN conjunct2, THEN conjunct2, THEN conjunct2, THEN conjunct2, THEN conjunct1]
  note t7 = T[THEN conjunct2, THEN conjunct2, THEN conjunct2, THEN conjunct2, THEN conjunct2, THEN conjunct2,
      THEN conjunct1]
  note t9 = T[THEN conjunct2, THEN conjunct2, THEN conjunct2, THEN conjunct2, THEN conjunct2, THEN conjunct2,
      THEN conjunct2, THEN conjunct2, THEN conjunct1]
  note t10 = T[THEN conjunct2, THEN conjunct2, THEN conjunct2, THEN conjunct2, THEN conjunct2, THEN conjunct2,
      THEN conjunct2, THEN conjunct2, THEN conjunct2]
  have a: "contactsPage (Valid 1000) Throws data = contactsPage (Valid 1000) (Body []) data"
    by (rule t1)
  have s: "snd (contactsPage (Valid 1000) Throws data) = contactActions (Valid 1000) (\<lambda>_. None) data"
    by (simp only: t3 snd_conv)
  have b: "map identity (snd (contactsPage (Valid 1000) Throws data))
        = map (\<lambda>c. email (the (contact_properties c))) (filter (\<lambda>c. \<not> noEmail c) data)"
    by (simp only: s t4)
  have c: "list_all (\<lambda>a. \<not> linked a) (snd (contactsPage (Valid 1000) Throws data))"
    by (simp only: s t5)
  have d: "meetingsPage (Valid 1000) Throws (Body []) ms = (if missingProperties ms then Some TypeError else None, [])"
    by (rule t7)
  have f: "snd (meetingsPage (Valid 1000) (Body [exAssoc ''m1'' [''p1'']]) Throws ms) = []"
    by (rule t9)
  have g: "fst (meetingsPage (Valid 1000) (Body [exAssoc ''m1'' [''p1'']]) Throws ms)
       = (if missingProperties ms then Some TypeError else None)"
    using t10 by simp
  from d m have d': "meetingsPage (Valid 1000) Throws (Body []) ms = (None, [])" by simp
  from f g m have g': "meetingsPage (Valid 1000) (Body [exAssoc ''m1'' [''p1'']]) Throws ms = (None, [])"
    by (simp add: prod_eq_iff)
  from b e have b': "map identity (snd (contactsPage (Valid 1000) Throws data)) = [Some ''ada@a.com'', Some ''bob@b.com'']"
    by (simp only:)
  from a b' c l d' g' n show ?thesis unfolding data_def ms_def by (intro conjI)
qed

text \<open>
  Claim C5 fails on the code for the meetings pass when the association lookup answers
  with a body that cannot be read. The claim has a failed lookup degrade to an empty
  result and the page go on; but \<^verbatim>\<open>meetingContactAssociationsResponse.json()\<close> is read
  after the \<^verbatim>\<open>try\<close> block, so its error is not caught there: the page throws, no meeting
  of the page is transformed, the pass returns false and the watermark stays where it was.
  The same page goes through when the lookup call itself throws, and the contacts pass,
  which reads the body inside its \<^verbatim>\<open>try\<close>, goes on with an unreadable body.
\<close>

theorem unreadable_lookup_aborts_meetings:
  "associations exUnreadablePage = BadBody
   \<and> meetingsPage (Valid 1000) BadBody (Body []) exMeetings = (Some JsonError, [])
   \<and> meetingsPage (Valid 1000) Throws (Body []) exMeetings = (None, [])
   \<and> map_option fst (processMeetings ''hub1'' \<lparr>ps_now = 7000, ps_pages = [exUnreadablePage]\<rparr> exWorld)
       = Some False
   \<and> committed Meetings ''hub1''
        (snd (the (processMeetings ''hub1'' \<lparr>ps_now = 7000, ps_pages = [exUnreadablePage]\<rparr> exWorld)))
       = Some (Valid 1000)
   \<and> map_option fst (processMeetings ''hub1'' exMeetingsPass exWorld) = Some True
   \<and> fst (contactsPage (Valid 1000) BadBody exContacts) = None
   \<and> map identity (snd (contactsPage (Valid 1000) BadBody exContacts)) = [Some ''ada@a.com'']"
  by code_simp

section \<open>Retries do not show\<close>

lemma verdict_samePage: "pp p = pp p' \<Longrightarrow> verdict pp lm p oo sr = verdict pp lm p' oo sr"
  by (simp add: verdict_def)

lemma passLoop_observed:
  "list_all2 (samePage pp) ps ps' \<Longrightarrow> observed w = observed w' \<Longrightarrow>
   map_option (\<lambda>r. (fst r, observed (snd r))) (passLoop k h pp lm lp now ps oo w)
   = map_option (\<lambda>r. (fst r, observed (snd r))) (passLoop k h pp lm lp now ps' oo w')"
proof (induction ps ps' arbitrary: oo w w' rule: list_all2_induct)
  case Nil
  show ?case by simp
next
  case (Cons p ps p' ps')
  from Cons.hyps(1) have ans: "answer (attempts p') 0 = answer (attempts p) 0" and pp: "pp p' = pp p"
    by (simp_all add: samePage_def)
  have f: "observed (fetched k h lp now p oo w) = observed (fetched k h lp now p' oo w')"
    by (simp only: observed_fetched Cons.prems)
  show ?case
  proof (cases "answer (attempts p) 0")
    case None
    with ans have "answer (attempts p') 0 = None" by simp
    with None f show ?thesis by (simp only: passLoop_aborts option.map fst_conv snd_conv)
  next
    case (Some sr)
    with ans have Some': "answer (attempts p') 0 = Some sr" by simp
    define acts where "acts = snd (pp p (sr_results sr))"
    have v: "verdict pp lm p' oo sr = verdict pp lm p oo sr" using pp by (simp add: verdict_def)
    have o: "observed (pushAll acts (fetched k h lp now p oo w)) = observed (pushAll acts (fetched k h lp now p' oo w'))"
      using f by (rule observed_pushAll)
    show ?thesis
    proof (cases "verdict pp lm p oo sr")
      case (Inl e)
      have l: "passLoop k h pp lm lp now (p # ps) oo w = Some (e, pushAll acts (fetched k h lp now p oo w))"
        by (simp add: passLoop_answers[OF Some] Inl acts_def)
      have r: "passLoop k h pp lm lp now (p' # ps') oo w' = Some (e, pushAll acts (fetched k h lp now p' oo w'))"
        by (simp add: passLoop_answers[OF Some'] v Inl acts_def pp)
      show ?thesis by (simp only: l r option.map fst_conv snd_conv o)
    next
      case (Inr oo')
      have l: "passLoop k h pp lm lp now (p # ps) oo w
          = passLoop k h pp lm lp now ps oo' (pushAll acts (fetched k h lp now p oo w))"
        by (simp add: passLoop_answers[OF Some] Inr acts_def)
      have r: "passLoop k h pp lm lp now (p' # ps') oo w'
          = passLoop k h pp lm lp now ps' oo' (pushAll acts (fetched k h lp now p' oo w'))"
        by (simp add: passLoop_answers[OF Some'] v Inr acts_def pp)
      show ?thesis unfolding l r using o by (rule Cons.IH)
    qed
  qed
qed

lemma watermarks_commit:
  "watermarks (commit k i now w)
   = (watermarks w)[i := (fst (watermarks w ! i),
        (case k of Companies \<Rightarrow> (snd (watermarks w ! i))\<lparr>pd_companies := Valid now\<rparr>
                 | Contacts \<Rightarrow> (snd (watermarks w ! i))\<lparr>pd_contacts := Valid now\<rparr>
                 | Meetings \<Rightarrow> (snd (watermarks w ! i))\<lparr>pd_meetings := Valid now\<rparr>))]"
proof (cases "i < length (accounts w)")
  case True
  then show ?thesis by (cases k) (simp_all add: commit_def watermarks_def Let_def map_update)
next
  case False
  then have "(accounts w)[i := x] = accounts w" and "(watermarks w)[i := y] = watermarks w" for x y
    by (simp_all add: watermarks_def list_update_beyond not_less)
  then show ?thesis by (simp add: commit_def Let_def watermarks_def)
qed

lemma observed_commit:
  assumes "observed w = observed w'"
  shows "observed (commit k i now w) = observed (commit k i now w')"
proof -
  from assms have g: "goalCalls w = goalCalls w'" and a: "actions w = actions w'"
    and m: "watermarks w = watermarks w'"
    by (simp_all add: observed_def)
  have "watermarks (commit k i now w) = watermarks (commit k i now w')"
    by (simp only: watermarks_commit m)
  moreover have "goalCalls (commit k i now w) = goalCalls (commit k i now w')"
    "actions (commit k i now w) = actions (commit k i now w')"
    by (simp_all add: commit_def Let_def g a)
  ultimately show ?thesis by (simp add: observed_def)
qed

lemma runPass_observed:
  assumes "\<And>lp. list_all2 (samePage (pp lp)) ps ps'"
  shows "map_option outcome (runPass k pp lm h \<lparr>ps_now = now, ps_pages = ps\<rparr> w)
       = map_option outcome (runPass k pp lm h \<lparr>ps_now = now, ps_pages = ps'\<rparr> w)"
proof (cases "findAccount h (accounts w)")
  case None
  then show ?thesis by (simp add: runPass_def)
next
  case (Some i)
  define lp where "lp = watermark k (accounts w ! i)"
  define l where "l = passLoop k h (pp lp) lm lp now ps initialOffset w"
  define r where "r = passLoop k h (pp lp) lm lp now ps' initialOffset w"
  have eq: "map_option (\<lambda>r. (fst r, observed (snd r))) l = map_option (\<lambda>r. (fst r, observed (snd r))) r"
    unfolding l_def r_def by (rule passLoop_observed[OF assms]) simp
  have L: "runPass k pp lm h \<lparr>ps_now = now, ps_pages = ps\<rparr> w
      = (case l of None \<Rightarrow> None | Some (Some e, w') \<Rightarrow> Some (False, w') | Some (None, w') \<Rightarrow> Some (True, commit k i now w'))"
    using Some by (simp add: runPass_def Let_def lp_def l_def)
  have R: "runPass k pp lm h \<lparr>ps_now = now, ps_pages = ps'\<rparr> w
      = (case r of None \<Rightarrow> None | Some (Some e, w') \<Rightarrow> Some (False, w') | Some (None, w') \<Rightarrow> Some (True, commit k i now w'))"
    using Some by (simp add: runPass_def Let_def lp_def r_def)
  show ?thesis
  proof (cases l)
    case None
    with eq have "r = None" by (cases r) simp_all
    with None L R show ?thesis by simp
  next
    case (Some a)
    then obtain e w1 where a: "l = Some (e, w1)" by (cases a) simp
    with eq obtain w2 where b: "r = Some (e, w2)" and o: "observed w1 = observed w2"
      by (cases r) auto
    show ?thesis
    proof (cases e)
      case None
      from o have "observed (commit k i now w1) = observed (commit k i now w2)" by (rule observed_commit)
      with None a b L R show ?thesis by (simp add: outcome_def)
    next
      case (Some err)
      with a b L R o show ?thesis by (simp add: outcome_def)
    qed
  qed
qed

lemma samePage_refl: "list_all2 (samePage pp) ps ps"
  by (simp add: list_all2_same samePage_def)

lemma runPass_retry:
  assumes "n \<le> 4" "answersAfter n sr p" "answersAfter 0 sr p0" "\<And>lp. pp lp p = pp lp p0"
  shows "map_option outcome (runPass k pp lm h \<lparr>ps_now = now, ps_pages = pre @ p # post\<rparr> w)
       = map_option outcome (runPass k pp lm h \<lparr>ps_now = now, ps_pages = pre @ p0 # post\<rparr> w)"
proof (rule runPass_observed)
  fix lp
  have "answer (attempts p) 0 = Some sr" using assms(1,2) by (rule answer_answersAfter)
  moreover have "answer (attempts p0) 0 = Some sr" using assms(3) by (intro answer_answersAfter[of 0]) simp_all
  ultimately have "samePage (pp lp) p p0" using assms(4) by (simp add: samePage_def)
  then show "list_all2 (samePage (pp lp)) (pre @ p # post) (pre @ p0 # post)"
    by (intro list_all2_appendI samePage_refl) (simp add: samePage_refl)
qed

text \<open>
  Claim C8. A page whose search throws up to three times and then answers gives the pass
  the same return value, the same actions (handed to the sink and pending) and the same
  watermarks as the same page answering at the first attempt, wherever the page stands in
  the pass, for each of the three kinds.
\<close>

theorem retries_are_transparent:
  "(n \<le> 3 \<and> answersAfter n src pc \<and> answersAfter 0 src pc0 \<longrightarrow>
      map_option outcome (processCompanies h \<lparr>ps_now = now, ps_pages = prec @ pc # postc\<rparr> w)
      = map_option outcome (processCompanies h \<lparr>ps_now = now, ps_pages = prec @ pc0 # postc\<rparr> w))
   \<and> (n \<le> 3 \<and> answersAfter n srp pp \<and> answersAfter 0 srp pp0 \<and> associations pp0 = associations pp \<longrightarrow>
      map_option outcome (processContacts h \<lparr>ps_now = now, ps_pages = prep @ pp # postp\<rparr> w)
      = map_option outcome (processContacts h \<lparr>ps_now = now, ps_pages = prep @ pp0 # postp\<rparr> w))
   \<and> (n \<le> 3 \<and> answersAfter n srm pm \<and> answersAfter 0 srm pm0 \<and> associations pm0 = associations pm
        \<and> contactsBatch pm0 = contactsBatch pm \<longrightarrow>
      map_option outcome (processMeetings h \<lparr>ps_now = now, ps_pages = prem @ pm # postm\<rparr> w)
      = map_option outcome (processMeetings h \<lparr>ps_now = now, ps_pages = prem @ pm0 # postm\<rparr> w))"
proof (intro conjI impI)
  assume a: "n \<le> 3 \<and> answersAfter n src pc \<and> answersAfter 0 src pc0"
  then have "n \<le> 4" by simp
  with a show "map_option outcome (processCompanies h \<lparr>ps_now = now, ps_pages = prec @ pc # postc\<rparr> w)
      = map_option outcome (processCompanies h \<lparr>ps_now = now, ps_pages = prec @ pc0 # postc\<rparr> w)"
    unfolding processCompanies_def
    by (intro runPass_retry[where n = n and sr = src]) (simp_all add: companiesPage_def fun_eq_iff)
next
  assume a: "n \<le> 3 \<and> answersAfter n srp pp \<and> answersAfter 0 srp pp0 \<and> associations pp0 = associations pp"
  then have "n \<le> 4" by simp
  with a show "map_option outcome (processContacts h \<lparr>ps_now = now, ps_pages = prep @ pp # postp\<rparr> w)
      = map_option outcome (processContacts h \<lparr>ps_now = now, ps_pages = prep @ pp0 # postp\<rparr> w)"
    unfolding processContacts_def
    by (intro runPass_retry[where n = n and sr = srp]) simp_all
next
  assume a: "n \<le> 3 \<and> answersAfter n srm pm \<and> answersAfter 0 srm pm0 \<and> associations pm0 = associations pm
        \<and> contactsBatch pm0 = contactsBatch pm"
  then have "n \<le> 4" by simp
  with a show "map_option outcome (processMeetings h \<lparr>ps_now = now, ps_pages = prem @ pm # postm\<rparr> w)
      = map_option outcome (processMeetings h \<lparr>ps_now = now, ps_pages = prem @ pm0 # postm\<rparr> w)"
    unfolding processMeetings_def
    by (intro runPass_retry[where n = n and sr = srm]) simp_all
qed

theorem retries_are_transparent_witness:
  "map_option outcome (processCompanies ''hub1'' \<lparr>ps_now = 5000, ps_pages = [] @ pageAfter 3 exCompanies None # []\<rparr> exExpiredWorld)
     = map_option outcome (processCompanies ''hub1'' \<lparr>ps_now = 5000, ps_pages = [] @ pageOf exCompanies None # []\<rparr> exExpiredWorld)
   \<and> map_option outcome (processContacts ''hub1'' \<lparr>ps_now = 6000, ps_pages = [] @ pageAfter 3 exContacts None # []\<rparr> exExpiredWorld)
     = map_option outcome (processContacts ''hub1'' \<lparr>ps_now = 6000, ps_pages = [] @ pageOf exContacts None # []\<rparr> exExpiredWorld)
   \<and> map_option outcome (processMeetings ''hub1'' \<lparr>ps_now = 7000, ps_pages = [] @ pageAfter 3 exMeetings None # []\<rparr> exExpiredWorld)
     = map_option outcome (processMeetings ''hub1'' \<lparr>ps_now = 7000, ps_pages = [] @ pageOf exMeetings None # []\<rparr> exExpiredWorld)
   \<and> map_option (\<lambda>r. (fst r, length (delivered (snd r)), length (searches (snd r)), map accessToken (accounts (snd r))))
        (processCompanies ''hub1'' \<lparr>ps_now = 5000, ps_pages = [] @ pageAfter 3 exCompanies None # []\<rparr> exExpiredWorld)
     = Some (True, 2, 4, [''t1'', ''t0''])
   \<and> map_option (\<lambda>r. (fst r, length (delivered (snd r)), length (searches (snd r)), map accessToken (accounts (snd r))))
        (processCompanies ''hub1'' \<lparr>ps_now = 5000, ps_pages = [] @ pageOf exCompanies None # []\<rparr> exExpiredWorld)
     = Some (True, 2, 1, [''t0'', ''t0''])"
proof -
  have c: "(3::nat) \<le> 3 \<and> answersAfter 3 \<lparr>sr_results = exCompanies, sr_after = None\<rparr> (pageAfter 3 exCompanies None)
      \<and> answersAfter 0 \<lparr>sr_results = exCompanies, sr_after = None\<rparr> (pageOf exCompanies None)"
    by code_simp
  have p: "(3::nat) \<le> 3 \<and> answersAfter 3 \<lparr>sr_results = exContacts, sr_after = None\<rparr> (pageAfter 3 exContacts None)
      \<and> answersAfter 0 \<lparr>sr_results = exContacts, sr_after = None\<rparr> (pageOf exContacts None)
      \<and> associations (pageOf exContacts None) = associations (pageAfter 3 exContacts None)"
    by code_simp
  have m: "(3::nat) \<le> 3 \<and> answersAfter 3 \<lparr>sr_results = exMeetings, sr_after = None\<rparr> (pageAfter 3 exMeetings None)
      \<and> answersAfter 0 \<lparr>sr_results = exMeetings, sr_after = None\<rparr> (pageOf exMeetings None)
      \<and> associations (pageOf exMeetings None) = associations (pageAfter 3 exMeetings None)
      \<and> contactsBatch (pageOf exMeetings None) = contactsBatch (pageAfter 3 exMeetings None)"
    by code_simp
  note T = retries_are_transparent[where n = 3 and h = "''hub1''" and w = exExpiredWorld
      and src = "\<lparr>sr_results = exCompanies, sr_after = None\<rparr>" and pc = "pageAfter 3 exCompanies None"
      and ?pc0.0 = "pageOf exCompanies None" and prec = "[]" and postc = "[]"
      and srp = "\<lparr>sr_results = exContacts, sr_after = None\<rparr>" and pp = "pageAfter 3 exContacts None"
      and ?pp0.0 = "pageOf exContacts None" and prep = "[]" and postp = "[]"
      and srm = "\<lparr>sr_results = exMeetings, sr_after = None\<rparr>" and pm = "pageAfter 3 exMeetings None"
      and ?pm0.0 = "pageOf exMeetings None" and prem = "[]" and postm = "[]"]
  have a1: "map_option outcome (processCompanies ''hub1'' \<lparr>ps_now = 5000, ps_pages = [] @ pageAfter 3 exCompanies None # []\<rparr> exExpiredWorld)
     = map_option outcome (processCompanies ''hub1'' \<lparr>ps_now = 5000, ps_pages = [] @ pageOf exCompanies None # []\<rparr> exExpiredWorld)"
    using T[where now = 5000] c by blast
  have a2: "map_option outcome (processContacts ''hub1'' \<lparr>ps_now = 6000, ps_pages = [] @ pageAfter 3 exContacts None # []\<rparr> exExpiredWorld)
     = map_option outcome (processContacts ''hub1'' \<lparr>ps_now = 6000, ps_pages = [] @ pageOf exContacts None # []\<rparr> exExpiredWorld)"
    using T[where now = 6000] p by blast
  have a3: "map_option outcome (processMeetings ''hub1'' \<lparr>ps_now = 7000, ps_pages = [] @ pageAfter 3 exMeetings None # []\<rparr> exExpiredWorld)
     = map_option outcome (processMeetings ''hub1'' \<lparr>ps_now = 7000, ps_pages = [] @ pageOf exMeetings None # []\<rparr> exExpiredWorld)"
    using T[where now = 7000] m by blast
  have b1: "map_option (\<lambda>r. (fst r, length (delivered (snd r)), length (searches (snd r)), map accessToken (accounts (snd r))))
        (processCompanies ''hub1'' \<lparr>ps_now = 5000, ps_pages = [] @ pageAfter 3 exCompanies None # []\<rparr> exExpiredWorld)
     = Some (True, 2, 4, [''t1'', ''t0''])"
    by code_simp
  have b2: "map_option (\<lambda>r. (fst r, length (delivered (snd r)), length (searches (snd r)), map accessToken (accounts (snd r))))
        (processCompanies ''hub1'' \<lparr>ps_now = 5000, ps_pages = [] @ pageOf exCompanies None # []\<rparr> exExpiredWorld)
     = Some (True, 2, 1, [''t0'', ''t0''])"
    by code_simp
  from a1 a2 a3 b1 b2 show ?thesis by (intro conjI)
qed

section \<open>Resets of the cursor\<close>

lemma searches_pushAll [simp]: "searches (pushAll as w) = searches w"
  by (induction as arbitrary: w) (simp_all add: push_def Let_def)

lemma searches_refresh [simp]: "searches (snd (refreshAccessToken h r w)) = searches w"
  by (auto simp: refreshAccessToken_def split: option.splits oauthResult.splits)

lemma searches_onFailure [simp]: "searches (onFailure h f w) = searches w"
  by (simp add: onFailure_def)

lemma searches_fetchPage: "\<exists>m. searches (snd (fetchPage h so att n w)) = searches w @ replicate m so"
proof (induction h so att n w rule: fetchPage.induct)
  case (1 h so att tryCount w)
  show ?case
  proof (cases "tryCount \<le> 4")
    case False
    then have "searches (snd (fetchPage h so att tryCount w)) = searches w @ replicate 0 so"
      by (simp add: fetchPage_over)
    then show ?thesis by blast
  next
    case True
    show ?thesis
    proof (cases "att tryCount")
      case (Resolves sr)
      with True have "searches (snd (fetchPage h so att tryCount w)) = searches w @ replicate 1 so"
        by (simp add: fetchPage_resolves sendSearch_def)
      then show ?thesis by blast
    next
      case (Rejects f)
      from "1.IH"[OF True Rejects] obtain m where
        "searches (snd (fetchPage h so att (tryCount + 1) (onFailure h f (sendSearch so w))))
         = searches (onFailure h f (sendSearch so w)) @ replicate m so"
        by blast
      with True Rejects have "searches (snd (fetchPage h so att tryCount w)) = searches w @ replicate (Suc m) so"
        by (simp add: fetchPage_rejects sendSearch_def replicate_append_same)
      then show ?thesis by blast
    qed
  qed
qed

lemma searches_fetched:
  "\<exists>m. searches (fetched k h lp now p oo w) = searches w @ replicate m (makeSearchObject k oo lp now)"
  unfolding fetched_def by (rule searches_fetchPage)

lemma unmoved_fresh: "fresh oo \<Longrightarrow> unmoved lp (makeSearchObject k oo lp now)"
  by (simp add: fresh_def unmoved_def isReset_def makeSearchObject_def generateLastModifiedDateFilter_def
      windowStart_def)

lemma verdict_shallow:
  assumes "shallow p" "answer (attempts p) 0 = Some sr" "verdict pp lm p oo sr = Inr oo'" "fresh oo"
  shows "fresh oo'"
proof -
  from assms(1,2) have s: "case sr_after sr of None \<Rightarrow> True | Some a \<Rightarrow> a < 9900"
    by (simp add: shallow_def)
  from assms(3) have n: "\<not> noAfter (sr_after sr)"
    by (auto simp: verdict_def split: option.splits if_splits)
  then obtain a where a: "sr_after sr = Some a" "a \<noteq> 0"
    by (cases "sr_after sr") (simp_all add: noAfter_def)
  with s have "a < 9900" by simp
  with assms(3) a n have "oo' = oo\<lparr>oo_after := Some a\<rparr>"
    by (auto simp: verdict_def split: option.splits if_splits)
  with assms(4) a show ?thesis by (simp add: fresh_def)
qed

lemma passLoop_shallow:
  "list_all shallow ps \<Longrightarrow> fresh oo \<Longrightarrow> passLoop k h pp lm lp now ps oo w = Some (e, w') \<Longrightarrow>
   \<exists>new. searches w' = searches w @ new \<and> list_all (unmoved lp) new"
proof (induction ps arbitrary: oo w)
  case Nil
  then show ?case by simp
next
  case (Cons p ps)
  from searches_fetched obtain m where
    m: "searches (fetched k h lp now p oo w) = searches w @ replicate m (makeSearchObject k oo lp now)"
    by blast
  from Cons.prems(2) have u: "list_all (unmoved lp) (replicate m (makeSearchObject k oo lp now))"
    by (simp add: list_all_iff unmoved_fresh)
  show ?case
  proof (cases "answer (attempts p) 0")
    case None
    with Cons.prems(3) have "w' = fetched k h lp now p oo w" by (simp add: passLoop_aborts)
    with m u show ?thesis by blast
  next
    case (Some sr)
    define w1 where "w1 = pushAll (snd (pp p (sr_results sr))) (fetched k h lp now p oo w)"
    have s1: "searches w1 = searches w @ replicate m (makeSearchObject k oo lp now)"
      by (simp add: w1_def m)
    show ?thesis
    proof (cases "verdict pp lm p oo sr")
      case (Inl e')
      with Some Cons.prems(3) have "w' = w1" by (simp add: passLoop_answers w1_def)
      with s1 u show ?thesis by blast
    next
      case (Inr oo')
      from Cons.prems(1) have sh: "shallow p" and rest: "list_all shallow ps" by simp_all
      from sh Some Inr Cons.prems(2) have f: "fresh oo'" by (rule verdict_shallow)
      from Some Inr Cons.prems(3) have "passLoop k h pp lm lp now ps oo' w1 = Some (e, w')"
        by (simp add: passLoop_answers w1_def)
      from Cons.IH[OF rest f this] obtain new where
        "searches w' = searches w1 @ new" "list_all (unmoved lp) new"
        by blast
      with s1 u have "searches w' = searches w @ (replicate m (makeSearchObject k oo lp now) @ new)
          \<and> list_all (unmoved lp) (replicate m (makeSearchObject k oo lp now) @ new)"
        by simp
      then show ?thesis by blast
    qed
  qed
qed

lemma searches_commit [simp]: "searches (commit k i now w) = searches w"
  by (simp add: commit_def Let_def)

lemma runPass_shallow:
  assumes "list_all shallow (ps_pages s)" "runPass k pp lm h s w = Some (b, w')"
  shows "\<exists>new. searches w' = searches w @ new \<and> list_all (unmoved (the (committed k h w))) new"
proof (cases "findAccount h (accounts w)")
  case None
  with assms(2) have "searches w' = searches w @ []" by (simp add: runPass_def)
  then show ?thesis by (intro exI[of _ "[]"]) simp
next
  case (Some i)
  define lp where "lp = watermark k (accounts w ! i)"
  from Some have c: "the (committed k h w) = lp" by (simp add: committed_def lp_def)
  from assms(2) Some obtain e w1 where
    loop: "passLoop k h (pp lp) lm lp (ps_now s) (ps_pages s) initialOffset w = Some (e, w1)"
    and d: "searches w' = searches w1"
    by (auto simp: runPass_def Let_def lp_def split: option.splits prod.splits)
  have "fresh initialOffset" by (simp add: fresh_def initialOffset_def)
  from passLoop_shallow[OF assms(1) this loop] c d show ?thesis by simp
qed

lemma loopBody_reset:
  assumes "answer (attempts p) 0 = Some sr" "fst (pp p (sr_results sr)) = None"
    "sr_after sr = Some a" "a \<ge> 9900" "sr_results sr \<noteq> []" "lm (last (sr_results sr)) = Inr d"
  shows "\<exists>w1. loopBody k h pp lm lp now p oo w = Again \<lparr>oo_after = Some 0, oo_lastModifiedDate = Some d\<rparr> w1"
proof -
  from assms(2-6) have "verdict pp lm p oo sr = Inr \<lparr>oo_after = Some 0, oo_lastModifiedDate = Some d\<rparr>"
    by (auto simp: verdict_def noAfter_def split: list.splits)
  with assms(1) show ?thesis by (simp add: loopBody_answers_nf)
qed

lemma loopBody_restart:
  assumes "loopBody k h pp lm lp now p oo w = Again oo' w1" "oo_after oo' = Some 0"
  shows "\<exists>sr a. answer (attempts p) 0 = Some sr \<and> sr_after sr = Some a \<and> a \<ge> 9900"
proof (cases "answer (attempts p) 0")
  case None
  with assms(1) show ?thesis by (simp add: loopBody_aborts)
next
  case (Some sr)
  with assms(1) have v: "verdict pp lm p oo sr = Inr oo'"
    by (auto simp: loopBody_answers_nf split: sum.splits)
  then have n: "\<not> noAfter (sr_after sr)"
    by (auto simp: verdict_def split: option.splits if_splits)
  then obtain a where a: "sr_after sr = Some a" "a \<noteq> 0"
    by (cases "sr_after sr") (simp_all add: noAfter_def)
  have "a \<ge> 9900"
  proof (rule ccontr)
    assume "\<not> a \<ge> 9900"
    with v a n have "oo' = oo\<lparr>oo_after := Some a\<rparr>"
      by (auto simp: verdict_def split: option.splits if_splits)
    with assms(2) a show False by simp
  qed
  with Some a show ?thesis by blast
qed

lemma makeSearchObject_reset:
  "t \<noteq> 0 \<Longrightarrow>
   makeSearchObject k \<lparr>oo_after = Some 0, oo_lastModifiedDate = Some (Valid t)\<rparr> lp now
   = \<lparr>so_kind = k, so_filter_gte = Valid t, so_filter_lte = Valid now, so_after = Some 0\<rparr>"
  by (simp add: makeSearchObject_def generateLastModifiedDateFilter_def windowStart_def)

text \<open>
  Claim C4, as the code has it. In a pass in which every cursor the searches answer with
  is below 9900, as when fewer records than that are fetched, no search request restarts
  the cursor and every one keeps the watermark of the start of the pass as the start of
  its window: there is no reset. A turn restarts the cursor at 0 only when the cursor
  answered is 9900 or more; when it is, and the page has records and was processed without
  error, the cursor becomes 0 and the window starts at the last-modified time of the last
  record of the page (when that is a valid time other than 0), whatever the start of the
  window was before.
\<close>

theorem no_reset_below_depth_limit:
  "(list_all shallow (ps_pages sc) \<and> processCompanies h sc w = Some (b1, w1) \<longrightarrow>
      (\<exists>new. searches w1 = searches w @ new \<and> list_all (unmoved (the (committed Companies h w))) new))
   \<and> (list_all shallow (ps_pages sp) \<and> processContacts h sp w = Some (b2, w2) \<longrightarrow>
      (\<exists>new. searches w2 = searches w @ new \<and> list_all (unmoved (the (committed Contacts h w))) new))
   \<and> (list_all shallow (ps_pages sm) \<and> processMeetings h sm w = Some (b3, w3) \<longrightarrow>
      (\<exists>new. searches w3 = searches w @ new \<and> list_all (unmoved (the (committed Meetings h w))) new))
   \<and> (answer (attempts p) 0 = Some sr \<and> fst (pp p (sr_results sr)) = None \<and> sr_after sr = Some a \<and> a \<ge> 9900
        \<and> sr_results sr \<noteq> [] \<and> lm (last (sr_results sr)) = Inr d \<longrightarrow>
      (\<exists>wn. loopBody k h pp lm lp now p oo wl = Again \<lparr>oo_after = Some 0, oo_lastModifiedDate = Some d\<rparr> wn))
   \<and> (t \<noteq> 0 \<longrightarrow>
      makeSearchObject k \<lparr>oo_after = Some 0, oo_lastModifiedDate = Some (Valid t)\<rparr> lp now
      = \<lparr>so_kind = k, so_filter_gte = Valid t, so_filter_lte = Valid now, so_after = Some 0\<rparr>)
   \<and> (loopBody k h pp lm lp now p oo wl = Again oo' wn' \<and> oo_after oo' = Some 0 \<longrightarrow>
      (\<exists>sr' a'. answer (attempts p) 0 = Some sr' \<and> sr_after sr' = Some a' \<and> a' \<ge> 9900))"
proof (intro conjI impI)
  assume "list_all shallow (ps_pages sc) \<and> processCompanies h sc w = Some (b1, w1)"
  then show "\<exists>new. searches w1 = searches w @ new \<and> list_all (unmoved (the (committed Companies h w))) new"
    unfolding processCompanies_def by (blast intro: runPass_shallow)
next
  assume "list_all shallow (ps_pages sp) \<and> processContacts h sp w = Some (b2, w2)"
  then show "\<exists>new. searches w2 = searches w @ new \<and> list_all (unmoved (the (committed Contacts h w))) new"
    unfolding processContacts_def by (blast intro: runPass_shallow)
next
  assume "list_all shallow (ps_pages sm) \<and> processMeetings h sm w = Some (b3, w3)"
  then show "\<exists>new. searches w3 = searches w @ new \<and> list_all (unmoved (the (committed Meetings h w))) new"
    unfolding processMeetings_def by (blast intro: runPass_shallow)
next
  assume "answer (attempts p) 0 = Some sr \<and> fst (pp p (sr_results sr)) = None \<and> sr_after sr = Some a \<and> a \<ge> 9900
        \<and> sr_results sr \<noteq> [] \<and> lm (last (sr_results sr)) = Inr d"
  then show "\<exists>wn. loopBody k h pp lm lp now p oo wl = Again \<lparr>oo_after = Some 0, oo_lastModifiedDate = Some d\<rparr> wn"
    by (blast intro: loopBody_reset)
next
  assume "t \<noteq> 0"
  then show "makeSearchObject k \<lparr>oo_after = Some 0, oo_lastModifiedDate = Some (Valid t)\<rparr> lp now
      = \<lparr>so_kind = k, so_filter_gte = Valid t, so_filter_lte = Valid now, so_after = Some 0\<rparr>"
    by (rule makeSearchObject_reset)
next
  assume "loopBody k h pp lm lp now p oo wl = Again oo' wn' \<and> oo_after oo' = Some 0"
  then show "\<exists>sr' a'. answer (attempts p) 0 = Some sr' \<and> sr_after sr' = Some a' \<and> a' \<ge> 9900"
    by (blast dest: loopBody_restart)
qed

theorem no_reset_below_depth_limit_witness:
  "list_all shallow (ps_pages exTwoPages)
   \<and> (\<exists>new. searches (snd (the (processCompanies ''hub1'' exTwoPages exWorld))) = searches exWorld @ new
         \<and> list_all (unmoved (the (committed Companies ''hub1'' exWorld))) new)
   \<and> (\<exists>new. searches (snd (the (processContacts ''hub1'' exTwoContactPages exWorld))) = searches exWorld @ new
         \<and> list_all (unmoved (the (committed Contacts ''hub1'' exWorld))) new)
   \<and> (\<exists>new. searches (snd (the (processMeetings ''hub1'' exTwoMeetingPages exWorld))) = searches exWorld @ new
         \<and> list_all (unmoved (the (committed Meetings ''hub1'' exWorld))) new)
   \<and> (\<exists>wn. loopBody Companies ''hub1'' (companiesPage (Valid 1000)) (\<lambda>c. Inr (company_updatedAt c)) (Valid 1000) 5000
         (pageOf [exCompany ''c1'' 500 3000] (Some 9900)) initialOffset exWorld
       = Again \<lparr>oo_after = Some 0, oo_lastModifiedDate = Some (Valid 3000)\<rparr> wn)
   \<and> makeSearchObject Companies \<lparr>oo_after = Some 0, oo_lastModifiedDate = Some (Valid 3000)\<rparr> (Valid 1000) 5000
       = \<lparr>so_kind = Companies, so_filter_gte = Valid 3000, so_filter_lte = Valid 5000, so_after = Some 0\<rparr>
   \<and> (\<exists>sr' a'. answer (attempts (pageOf [exCompany ''c1'' 500 3000] (Some 9900))) 0 = Some sr'
         \<and> sr_after sr' = Some a' \<and> a' \<ge> 9900)
   \<and> map_option (\<lambda>r. searches (snd r)) (processCompanies ''hub1'' (exDeepPass 3000) exWorld)
       = Some [\<lparr>so_kind = Companies, so_filter_gte = Valid 1000, so_filter_lte = Valid 5000, so_after = None\<rparr>,
               \<lparr>so_kind = Companies, so_filter_gte = Valid 3000, so_filter_lte = Valid 5000, so_after = Some 0\<rparr>]"
proof -
  define p where "p = pageOf [exCompany ''c1'' 500 3000] (Some 9900)"
  define sr where "sr = \<lparr>sr_results = [exCompany ''c1'' 500 3000], sr_after = Some 9900\<rparr>"
  define wn where "wn = (case loopBody Companies ''hub1'' (companiesPage (Valid 1000)) (\<lambda>c. Inr (company_updatedAt c))
      (Valid 1000) 5000 p initialOffset exWorld of Again oo w \<Rightarrow> w | Stop e w \<Rightarrow> w)"
  note T = no_reset_below_depth_limit[where sc = exTwoPages and sp = exTwoContactPages and sm = exTwoMeetingPages
      and h = "''hub1''" and w = exWorld and ?b1.0 = True and ?b2.0 = True and ?b3.0 = True
      and ?w1.0 = "snd (the (processCompanies ''hub1'' exTwoPages exWorld))"
      and ?w2.0 = "snd (the (processContacts ''hub1'' exTwoContactPages exWorld))"
      and ?w3.0 = "snd (the (processMeetings ''hub1'' exTwoMeetingPages exWorld))"
      and p = p and sr = sr and pp = "companiesPage (Valid 1000)" and a = 9900
      and lm = "\<lambda>c. Inr (company_updatedAt c)" and d = "Valid 3000" and t = 3000
      and k = Companies and lp = "Valid 1000" and now = 5000 and oo = initialOffset and wl = exWorld
      and oo' = "\<lparr>oo_after = Some 0, oo_lastModifiedDate = Some (Valid 3000)\<rparr>" and wn' = wn]
  have s: "list_all shallow (ps_pages exTwoPages)" "list_all shallow (ps_pages exTwoContactPages)"
    "list_all shallow (ps_pages exTwoMeetingPages)"
    by code_simp+
  have r: "processCompanies ''hub1'' exTwoPages exWorld = Some (True, snd (the (processCompanies ''hub1'' exTwoPages exWorld)))"
    "processContacts ''hub1'' exTwoContactPages exWorld = Some (True, snd (the (processContacts ''hub1'' exTwoContactPages exWorld)))"
    "processMeetings ''hub1'' exTwoMeetingPages exWorld = Some (True, snd (the (processMeetings ''hub1'' exTwoMeetingPages exWorld)))"
    by code_simp+
  have h4: "answer (attempts p) 0 = Some sr \<and> fst (companiesPage (Valid 1000) p (sr_results sr)) = None
      \<and> sr_after sr = Some 9900 \<and> (9900::int) \<ge> 9900 \<and> sr_results sr \<noteq> []
      \<and> (\<lambda>c. Inr (company_updatedAt c)) (last (sr_results sr)) = (Inr (Valid 3000) :: error + jsdate)"
    unfolding p_def sr_def by code_simp
  have h5: "(3000::int) \<noteq> 0" by simp
  have h6: "loopBody Companies ''hub1'' (companiesPage (Valid 1000)) (\<lambda>c. Inr (company_updatedAt c)) (Valid 1000) 5000
      p initialOffset exWorld = Again \<lparr>oo_after = Some 0, oo_lastModifiedDate = Some (Valid 3000)\<rparr> wn
      \<and> oo_after \<lparr>oo_after = Some 0, oo_lastModifiedDate = Some (Valid 3000)\<rparr> = Some 0"
    unfolding p_def wn_def by code_simp
  have e: "map_option (\<lambda>r. searches (snd r)) (processCompanies ''hub1'' (exDeepPass 3000) exWorld)
       = Some [\<lparr>so_kind = Companies, so_filter_gte = Valid 1000, so_filter_lte = Valid 5000, so_after = None\<rparr>,
               \<lparr>so_kind = Companies, so_filter_gte = Valid 3000, so_filter_lte = Valid 5000, so_after = Some 0\<rparr>]"
    by code_simp
  from T s r h4 h5 h6 have
    "(\<exists>new. searches (snd (the (processCompanies ''hub1'' exTwoPages exWorld))) = searches exWorld @ new
         \<and> list_all (unmoved (the (committed Companies ''hub1'' exWorld))) new)"
    "(\<exists>new. searches (snd (the (processContacts ''hub1'' exTwoContactPages exWorld))) = searches exWorld @ new
         \<and> list_all (unmoved (the (committed Contacts ''hub1'' exWorld))) new)"
    "(\<exists>new. searches (snd (the (processMeetings ''hub1'' exTwoMeetingPages exWorld))) = searches exWorld @ new
         \<and> list_all (unmoved (the (committed Meetings ''hub1'' exWorld))) new)"
    "(\<exists>wn. loopBody Companies ''hub1'' (companiesPage (Valid 1000)) (\<lambda>c. Inr (company_updatedAt c)) (Valid 1000) 5000
         p initialOffset exWorld = Again \<lparr>oo_after = Some 0, oo_lastModifiedDate = Some (Valid 3000)\<rparr> wn)"
    "makeSearchObject Companies \<lparr>oo_after = Some 0, oo_lastModifiedDate = Some (Valid 3000)\<rparr> (Valid 1000) 5000
       = \<lparr>so_kind = Companies, so_filter_gte = Valid 3000, so_filter_lte = Valid 5000, so_after = Some 0\<rparr>"
    "(\<exists>sr' a'. answer (attempts p) 0 = Some sr' \<and> sr_after sr' = Some a' \<and> a' \<ge> 9900)"
    by blast+
  with s(1) e show ?thesis unfolding p_def by (intro conjI)
qed

text \<open>
  The claim as written fails twice. Three companies on two pages, far below the limit,
  are fetched by two requests neither of which restarts the cursor: there is no reset,
  not one. And a page that ends at the limit with its last record modified at the very
  start of the window restarts the cursor with the window where it was: the start of the
  window has not strictly increased.
\<close>

theorem reset_counterexample:
  "length (fetchedRecords exTwoPages) = 3
   \<and> map_option fst (processCompanies ''hub1'' exTwoPages exWorld) = Some True
   \<and> searches (snd (the (processCompanies ''hub1'' exTwoPages exWorld)))
       = [\<lparr>so_kind = Companies, so_filter_gte = Valid 1000, so_filter_lte = Valid 5000, so_after = None\<rparr>,
          \<lparr>so_kind = Companies, so_filter_gte = Valid 1000, so_filter_lte = Valid 5000, so_after = Some 2\<rparr>]
   \<and> filter isReset (searches (snd (the (processCompanies ''hub1'' exTwoPages exWorld)))) = []
   \<and> map_option fst (processCompanies ''hub1'' (exDeepPass 1000) exWorld) = Some True
   \<and> searches (snd (the (processCompanies ''hub1'' (exDeepPass 1000) exWorld)))
       = [\<lparr>so_kind = Companies, so_filter_gte = Valid 1000, so_filter_lte = Valid 5000, so_after = None\<rparr>,
          \<lparr>so_kind = Companies, so_filter_gte = Valid 1000, so_filter_lte = Valid 5000, so_after = Some 0\<rparr>]"
  by code_simp

end
